(* ===== verification/Prelude.thy ===== *)
theory Prelude
  imports Complex_Main "HOL-Library.Word" "HOL-Library.List_Lexorder"
begin

text \<open>
  Shared vocabulary of the development: the types that stand for Python's
  \<open>bytes\<close> and \<open>str\<close>, Python's exception classes as far as
  \<open>src/app.py\<close> raises or catches them, the console and sleep effects of
  the program, and the generic list lemmas the component theories share.
  A Python \<open>str\<close> is a sequence of Unicode code points, so it is a
  \<open>nat list\<close> here, not Isabelle's byte-sized \<open>char list\<close>; ASCII
  literals of the source are written \<open>lit ''...''\<close>.
\<close>

type_synonym byte = "8 word"
type_synonym codepoint = nat
type_synonym pystr = "codepoint list"

named_theorems model_defs "definitions unfolded to evaluate the model on concrete inputs"

definition lit :: "string \<Rightarrow> pystr" where
  "lit s = map of_char s"

subsection \<open>Python exceptions\<close>

text \<open>
  The exception classes that occur in \<open>src/app.py\<close>: raised by
  \<open>bytes.decode\<close>, \<open>float\<close>, pySerial's \<open>readline\<close>, pandas'
  column selection and \<open>read_csv\<close>, scikit-learn's \<open>predict\<close>, Flask's
  JSON provider, Jinja's template loader behind \<open>render_template\<close>, and
  the f-string in the \<open>except ValueError\<close> handler.
  \<open>UnicodeDecodeError\<close> is a subclass of \<open>ValueError\<close> in Python; the
  test \<open>isinstance(e, ValueError)\<close> is \<open>is_ValueError\<close>.
\<close>

datatype exn =
    ValueError pystr
  | UnicodeDecodeError
  | SerialException pystr
  | KeyError "pystr list"
  | FileNotFoundError
  | TypeError pystr
  | UnboundLocalError pystr
  | TemplateNotFound pystr
  | OtherError pystr

fun is_ValueError :: "exn \<Rightarrow> bool" where
  "is_ValueError (ValueError _) = True"
| "is_ValueError UnicodeDecodeError = True"
| "is_ValueError _ = False"

subsection \<open>Effects\<close>

text \<open>
  What the program does to the world besides its state: the lines it prints to
  the console and the seconds it sleeps. A message is kept as the constructor
  and its argument; \<open>render_msg\<close> gives the text the source prints for it,
  with \<open>str(e)\<close> of an exception as the parameter \<open>str_exn\<close>.
\<close>

datatype msg =
    ArduinoConnectError pystr
  | ThreadNotRunning
  | DatasetNotFound
  | ColumnMismatch exn
  | NonNumeric pystr
  | ReadError exn
  | ThreadCrashed exn

datatype effect = Print msg | Sleep nat

text \<open>The f-strings of lines 16, 44, 48, 59, 89 and 93. An exception that ends
  the thread is reported by Python's \<open>threading.excepthook\<close>, whose last
  line is the exception's text.\<close>

fun render_msg :: "(exn \<Rightarrow> pystr) \<Rightarrow> msg \<Rightarrow> pystr" where
  "render_msg str_exn (ArduinoConnectError m) =
     lit ''Error connecting to Arduino on COM6: '' @ m @ lit ''. Check if the port is correct and available.''"
| "render_msg str_exn ThreadNotRunning = lit ''Arduino connection failed, background thread not running.''"
| "render_msg str_exn DatasetNotFound =
     lit ''Error: 'synthetic_crop_irrigation_dataset.csv' not found. Please ensure it is in the same directory.''"
| "render_msg str_exn (ColumnMismatch e) =
     lit ''KeyError: '' @ str_exn e @ lit ''. Column name mismatch in CSV. Check if 'Temperature', 'Humidity', 'SoilMoisture', 'Crop', and 'Irrigation_Needed' are spelled exactly right (case-sensitive) and have no extra spaces.''"
| "render_msg str_exn (NonNumeric l) = lit ''Non-numeric data received: '' @ l"
| "render_msg str_exn (ReadError e) = lit ''Error reading from Arduino: '' @ str_exn e"
| "render_msg str_exn (ThreadCrashed e) = str_exn e"

subsection \<open>Shared list lemmas\<close>

lemma lit_simps [simp]:
  "lit [] = []"
  "lit (c # cs) = of_char c # lit cs"
  "lit (xs @ ys) = lit xs @ lit ys"
  by (simp_all add: lit_def)

lemma length_lit [simp]: "length (lit s) = length s"
  by (simp add: lit_def)

lemma lit_ascii: "c \<in> set (lit s) \<Longrightarrow> c < 256"
  by (auto simp: lit_def nat_of_char_less_256)

lemma dropWhile_all:
  "\<forall>x \<in> set xs. P x \<Longrightarrow> dropWhile P (xs @ ys) = dropWhile P ys"
  "\<forall>x \<in> set xs. P x \<Longrightarrow> dropWhile P xs = []"
  by (induction xs) auto

lemma takeWhile_all:
  "\<forall>x \<in> set xs. P x \<Longrightarrow> takeWhile P (xs @ ys) = xs @ takeWhile P ys"
  "\<forall>x \<in> set xs. P x \<Longrightarrow> takeWhile P xs = xs"
  by (induction xs) auto

lemma dropWhile_hd_not:
  "dropWhile P xs = y # ys \<Longrightarrow> \<not> P y"
  by (induction xs) (auto split: if_splits)

end
