(* ===== verification/PyStr.thy ===== *)
theory PyStr
  imports Prelude
begin

text \<open>
  The two \<open>str\<close> methods \<open>read_arduino\<close> applies to a decoded serial line
  (\<open>src/app.py\<close> lines 64 and 67): \<open>strip()\<close>, which removes leading and
  trailing characters for which Python's \<open>str.isspace\<close> holds, and
  \<open>split(',')\<close>, which cuts at every occurrence of the separator and keeps
  empty fields. \<open>py_join\<close> is \<open>','.join\<close>, the format of a line the
  sensor sends; it states the round trips.
\<close>

text \<open>
  The code points with Python's \<open>str.isspace()\<close> (bidirectional class WS, B
  or S, or category Zs): tab to carriage return, the four information
  separators, space, NEL, no-break space, ogham space mark, the spaces U+2000
  to U+200A, line and paragraph separator, narrow no-break space, medium
  mathematical space and ideographic space.
\<close>

definition py_isspace :: "codepoint \<Rightarrow> bool" where
  "py_isspace c \<longleftrightarrow>
     (0x09 \<le> c \<and> c \<le> 0x0D) \<or> (0x1C \<le> c \<and> c \<le> 0x20) \<or> c = 0x85 \<or> c = 0xA0 \<or>
     c = 0x1680 \<or> (0x2000 \<le> c \<and> c \<le> 0x200A) \<or> c = 0x2028 \<or> c = 0x2029 \<or>
     c = 0x202F \<or> c = 0x205F \<or> c = 0x3000"

definition py_strip :: "pystr \<Rightarrow> pystr" where
  "py_strip s = rev (dropWhile py_isspace (rev (dropWhile py_isspace s)))"

fun split_acc :: "codepoint \<Rightarrow> pystr \<Rightarrow> pystr \<Rightarrow> pystr list" where
  "split_acc sep cur [] = [cur]"
| "split_acc sep cur (c # cs) =
     (if c = sep then cur # split_acc sep [] cs else split_acc sep (cur @ [c]) cs)"

definition py_split :: "codepoint \<Rightarrow> pystr \<Rightarrow> pystr list" where
  "py_split sep s = split_acc sep [] s"

fun py_join :: "codepoint \<Rightarrow> pystr list \<Rightarrow> pystr" where
  "py_join sep [] = []"
| "py_join sep [f] = f"
| "py_join sep (f # fs) = f @ sep # py_join sep fs"



lemmas pystr_defs [model_defs] = py_isspace_def py_strip_def py_split_def

subsection \<open>split\<close>

lemma split_acc_nonempty: "split_acc sep cur s \<noteq> []"
  by (induction sep cur s rule: split_acc.induct) auto

lemma split_acc_length: "length (split_acc sep cur s) = count_list s sep + 1"
  by (induction sep cur s rule: split_acc.induct) auto

lemma split_acc_no_sep:
  "sep \<notin> set cur \<Longrightarrow> \<forall>f \<in> set (split_acc sep cur s). sep \<notin> set f"
  by (induction sep cur s rule: split_acc.induct) auto

lemma split_acc_join: "py_join sep (split_acc sep cur s) = cur @ s"
proof (induction sep cur s rule: split_acc.induct)
  case (1 sep cur)
  then show ?case by simp
next
  case (2 sep cur c cs)
  show ?case
  proof (cases "c = sep")
    case True
    then obtain f fs where "split_acc sep [] cs = f # fs"
      by (cases "split_acc sep [] cs") (simp_all add: split_acc_nonempty)
    with True "2.IH"(1) show ?thesis by simp
  next
    case False
    with "2.IH"(2) show ?thesis by simp
  qed
qed

lemma split_acc_append:
  "sep \<notin> set f \<Longrightarrow> split_acc sep cur (f @ rest) = split_acc sep (cur @ f) rest"
  by (induction f arbitrary: cur) auto

lemma split_join_acc:
  "fs \<noteq> [] \<Longrightarrow> \<forall>f \<in> set fs. sep \<notin> set f \<Longrightarrow>
     split_acc sep [] (py_join sep fs) = fs"
proof (induction fs rule: py_join.induct)
  case (1 sep)
  then show ?case by simp
next
  case (2 sep f)
  then show ?case using split_acc_append [of sep f "[]" "[]"] by simp
next
  case (3 sep f g fs)
  then show ?case using split_acc_append [of sep f "[]" "sep # py_join sep (g # fs)"] by simp
qed

subsection \<open>strip\<close>

lemma rev_dropWhile_prefix:
  "xs = rev (dropWhile P (rev xs)) @ rev (takeWhile P (rev xs))"
  by (metis rev_append rev_rev_ident takeWhile_dropWhile_id)

lemma py_strip_bounds:
  "\<exists>l r. s = l @ py_strip s @ r \<and> (\<forall>c \<in> set l. py_isspace c) \<and> (\<forall>c \<in> set r. py_isspace c)"
proof -
  let ?d = "dropWhile py_isspace s"
  have l: "s = takeWhile py_isspace s @ ?d" by simp
  have "?d = py_strip s @ rev (takeWhile py_isspace (rev ?d))"
    unfolding py_strip_def by (rule rev_dropWhile_prefix)
  with l have "s = takeWhile py_isspace s @ py_strip s @ rev (takeWhile py_isspace (rev ?d))"
    by simp
  then show ?thesis
    by (metis set_takeWhileD set_rev)
qed

lemma py_strip_edges:
  "py_strip s = [] \<or> (\<not> py_isspace (hd (py_strip s)) \<and> \<not> py_isspace (last (py_strip s)))"
proof (cases "py_strip s = []")
  case True
  then show ?thesis by simp
next
  case False
  let ?d = "dropWhile py_isspace s"
  let ?e = "dropWhile py_isspace (rev ?d)"
  have e: "?e \<noteq> []" using False by (simp add: py_strip_def)
  then have last: "\<not> py_isspace (last (py_strip s))"
    by (simp add: py_strip_def last_rev hd_dropWhile)
  have d: "?d = py_strip s @ rev (takeWhile py_isspace (rev ?d))"
    unfolding py_strip_def by (rule rev_dropWhile_prefix)
  with False have "hd ?d = hd (py_strip s)" "?d \<noteq> []"
    by (metis hd_append2, metis Nil_is_append_conv)
  then have "\<not> py_isspace (hd (py_strip s))"
    by (metis hd_dropWhile)
  with last show ?thesis by simp
qed

lemma dropWhile_rev_edge:
  "t \<noteq> [] \<Longrightarrow> \<not> P (last t) \<Longrightarrow> \<forall>c \<in> set r. P c \<Longrightarrow>
     dropWhile P (rev (t @ r)) = rev t"
proof -
  assume t: "t \<noteq> []" and e: "\<not> P (last t)" and r: "\<forall>c \<in> set r. P c"
  from t obtain u x where u: "t = u @ [x]" by (cases t rule: rev_cases) auto
  with e have "\<not> P x" by simp
  with r u show "dropWhile P (rev (t @ r)) = rev t"
    by (simp add: dropWhile_all)
qed

lemma py_strip_nospace: "\<forall>c \<in> set s. \<not> py_isspace c \<Longrightarrow> py_strip s = s"
proof -
  assume a: "\<forall>c \<in> set s. \<not> py_isspace c"
  have d: "dropWhile py_isspace xs = xs" if "\<forall>c \<in> set xs. \<not> py_isspace c" for xs
    using that by (cases xs) simp_all
  from a have "dropWhile py_isspace s = s" by (rule d)
  moreover from a have "dropWhile py_isspace (rev s) = rev s" by (intro d) simp
  ultimately show ?thesis by (simp add: py_strip_def)
qed

subsection \<open>Properties of strip and split\<close>

text \<open>
  \<open>strip()\<close> removes exactly the leading and the trailing white space:
  a line made of white space, a text that neither starts nor ends with white
  space, and white space again strips to that text.
\<close>

theorem py_strip_shape:
  "\<exists>l r. s = l @ py_strip s @ r \<and> (\<forall>c \<in> set l. py_isspace c) \<and> (\<forall>c \<in> set r. py_isspace c)
     \<and> (py_strip s = [] \<or> (\<not> py_isspace (hd (py_strip s)) \<and> \<not> py_isspace (last (py_strip s))))"
  using py_strip_bounds py_strip_edges by blast

theorem py_strip_shape_witness:
  "py_strip [32, 50, 53, 13, 10] = [50, 53] \<and> [32, 50, 53, 13, 10] = [32] @ [50, 53] @ [13, 10]"
proof -
  obtain l r where "[32, 50, 53, 13, 10] = l @ py_strip [32, 50, 53, 13, 10] @ r"
    using py_strip_shape by blast
  have "py_strip [32, 50, 53, 13, 10] = [50, 53]"
    by (simp add: py_strip_def py_isspace_def)
  then show ?thesis by simp
qed

text \<open>
  A text that neither starts nor ends with white space, with white space
  before and after it, strips to exactly that text: the line terminator
  \<open>\r\n\<close> the sender appends is removed and nothing of the reading is.
\<close>

theorem py_strip_eq:
  assumes "\<forall>c \<in> set l. py_isspace c" and "\<forall>c \<in> set r. py_isspace c"
    and "t = [] \<or> (\<not> py_isspace (hd t) \<and> \<not> py_isspace (last t))"
  shows "py_strip (l @ t @ r) = t"
proof (cases "t = []")
  case True
  with assms(1,2) show ?thesis
    by (simp add: py_strip_def dropWhile_all)
next
  case False
  with assms(3) have h: "\<not> py_isspace (hd t)" and e: "\<not> py_isspace (last t)" by auto
  from False h have d1: "dropWhile py_isspace (l @ t @ r) = t @ r"
    using assms(1) by (cases t) (simp_all add: dropWhile_all)
  have d2: "dropWhile py_isspace (rev (t @ r)) = rev t"
    using False e assms(2) by (rule dropWhile_rev_edge)
  show ?thesis
    by (simp only: py_strip_def d1 d2 rev_rev_ident)
qed

theorem py_strip_eq_witness:
  "py_strip (lit '' 25.0'' @ [13, 10]) = lit ''25.0''"
proof -
  have "py_strip ([32] @ lit ''25.0'' @ [13, 10]) = lit ''25.0''"
    by (rule py_strip_eq) (simp_all add: py_isspace_def)
  then show ?thesis by simp
qed

text \<open>
  C13. \<open>split(',')\<close> cuts a line into one field more than it has commas; no
  field holds a comma; joining the fields with commas gives the line back.
  So the check \<open>len(values) == 3\<close> accepts exactly the lines with two commas.
\<close>

theorem py_split_spec:
  "py_join sep (py_split sep s) = s \<and> length (py_split sep s) = count_list s sep + 1 \<and>
   (\<forall>f \<in> set (py_split sep s). sep \<notin> set f)"
  using split_acc_no_sep [of sep "[]" s]
  by (simp add: py_split_def split_acc_join split_acc_length)

theorem py_split_spec_witness:
  "py_split 44 (lit ''1,,2'') = [lit ''1'', [], lit ''2''] \<and> length (py_split 44 (lit ''1,,2'')) = 3"
proof -
  have "length (py_split 44 (lit ''1,,2'')) = count_list (lit ''1,,2'') 44 + 1"
    using py_split_spec by blast
  moreover have "py_split 44 (lit ''1,,2'') = [lit ''1'', [], lit ''2'']"
    by (simp add: py_split_def)
  ultimately show ?thesis by simp
qed

text \<open>
  Splitting a comma-joined list of comma-free fields gives the fields
  back: a line \<open>t,h,s\<close> as the sensor sends it splits into its three fields.
\<close>

theorem py_split_join:
  assumes "fs \<noteq> []" and "\<forall>f \<in> set fs. sep \<notin> set f"
  shows "py_split sep (py_join sep fs) = fs"
  using assms by (simp add: py_split_def split_join_acc)

theorem py_split_join_witness:
  "py_split 44 (lit ''25.0,60.0,40.0'') = [lit ''25.0'', lit ''60.0'', lit ''40.0'']"
proof -
  have "py_split 44 (py_join 44 [lit ''25.0'', lit ''60.0'', lit ''40.0''])
          = [lit ''25.0'', lit ''60.0'', lit ''40.0'']"
    by (rule py_split_join) simp_all
  then show ?thesis by simp
qed


end
