(* ===== verification/Binary64.thy ===== *)
theory Binary64
  imports Prelude
begin

text \<open>
  IEEE 754 binary64, the format of a Python \<open>float\<close>, on the magnitudes of
  finite values. A finite non-negative binary64 value is \<open>m * 2 powi u\<close>
  with a 53-bit significand \<open>m\<close> and an exponent \<open>u\<close> of its last bit
  between \<open>-1074\<close> (the subnormals) and \<open>971\<close> (\<open>is_b64\<close>). CPython
  converts a decimal to the nearest such value, ties to an even significand
  (\<open>_Py_dg_strtod\<close> is correctly rounded); \<open>round_b64\<close> computes it on a
  rational: the exponent of its leading bit (\<open>log2_floor\<close>, from the bit
  lengths of numerator and denominator), the exponent \<open>ulp_exp\<close> of the
  last bit kept, and the nearest multiple of \<open>2 powi ulp_exp\<close>
  (\<open>round_even\<close>). The specification is the one of the IEEE development of
  the Archive of Formal Proofs: the result is a closest element of the
  format (\<open>is_closest\<close>); \<open>round_b64_closest_set\<close> proves the refinement,
  and \<open>PyFloat.round_range_closest\<close> states it for the conversion.
\<close>

text \<open>The number of base-\<open>b\<close> digits of a natural number, and from the digit
  counts of numerator and denominator the exponent \<open>e\<close> with
  \<open>b powi e \<le> v < b powi (e + 1)\<close> of a positive rational.\<close>

function ndig :: "nat \<Rightarrow> int \<Rightarrow> nat" where
  "ndig b n = (if n \<le> 0 \<or> b < 2 then 0 else Suc (ndig b (n div int b)))"
  by pat_completeness auto

termination
  by (relation "measure (\<lambda>(b, n). nat n)") (auto intro: int_div_less_self)

declare ndig.simps [simp del]

definition log_floor :: "nat \<Rightarrow> rat \<Rightarrow> int" where
  "log_floor b v =
     (let (p, q) = quotient_of v; e = int (ndig b p) - int (ndig b q)
      in if of_nat b powi e \<le> v then e else e - 1)"

abbreviation log2_floor :: "rat \<Rightarrow> int" where
  "log2_floor \<equiv> log_floor 2"

definition round_even :: "rat \<Rightarrow> int" where
  "round_even x =
     (let f = \<lfloor>x\<rfloor>; r = x - of_int f
      in if r < 1 / 2 then f else if 1 / 2 < r then f + 1 else if even f then f else f + 1)"

definition ulp_exp :: "rat \<Rightarrow> int" where
  "ulp_exp v = max (-1074) (log2_floor v - 52)"

definition round_b64 :: "rat \<Rightarrow> rat" where
  "round_b64 v = (if v \<le> 0 then 0 else of_int (round_even (v / 2 powi ulp_exp v)) * 2 powi ulp_exp v)"

definition max_b64 :: rat where
  "max_b64 = (2 ^ 53 - 1) * 2 ^ 971"

text \<open>The specification side: the finite magnitudes of the format and a closest
  element of a set.\<close>

definition is_b64 :: "rat \<Rightarrow> bool" where
  "is_b64 x \<longleftrightarrow> (\<exists>m u. x = of_nat m * 2 powi u \<and> m < 2 ^ 53 \<and> -1074 \<le> u \<and> u \<le> 971)"

definition is_closest :: "rat set \<Rightarrow> rat \<Rightarrow> rat \<Rightarrow> bool" where
  "is_closest S v a \<longleftrightarrow> a \<in> S \<and> (\<forall>b \<in> S. \<bar>a - v\<bar> \<le> \<bar>b - v\<bar>)"

definition on_grid :: "int \<Rightarrow> rat \<Rightarrow> bool" where
  "on_grid u x \<longleftrightarrow> (\<exists>j::int. x = of_int j * 2 powi u)"

subsection \<open>Bit lengths and the leading bit\<close>

lemma ndig_bounds: "0 < n \<Longrightarrow> 2 \<le> b \<Longrightarrow> int b ^ (ndig b n - 1) \<le> n \<and> n < int b ^ ndig b n"
proof (induction b n rule: ndig.induct)
  case (1 b n)
  let ?b = "int b"
  have b: "2 \<le> ?b" using "1.prems" by simp
  show ?case
  proof (cases "n < ?b")
    case True
    then have "n div ?b = 0" using "1.prems" by simp
    then have "ndig b n = 1" using "1.prems" by (simp add: ndig.simps)
    then show ?thesis using True "1.prems" by simp
  next
    case False
    then have d: "0 < n div ?b" using b by (simp add: pos_imp_zdiv_pos_iff)
    with "1.IH" "1.prems" have ih: "?b ^ (ndig b (n div ?b) - 1) \<le> n div ?b" "n div ?b < ?b ^ ndig b (n div ?b)"
      by simp_all
    have "0 < ndig b (n div ?b)" using d "1.prems" by (simp add: ndig.simps)
    then obtain k where k: "ndig b (n div ?b) = Suc k" by (cases "ndig b (n div ?b)") simp_all
    have n: "ndig b n = Suc (Suc k)" using "1.prems" k by (simp add: ndig.simps)
    have e: "?b * (n div ?b) + n mod ?b = n" by (rule mult_div_mod_eq)
    have r: "0 \<le> n mod ?b" "n mod ?b < ?b" using b by simp_all
    have m1: "?b * ?b ^ k \<le> ?b * (n div ?b)" using ih(1) k b by (intro mult_left_mono) simp_all
    have m2: "?b * (n div ?b + 1) \<le> ?b * ?b ^ Suc k" using ih(2) k b by (intro mult_left_mono) simp_all
    have "?b * ?b ^ k \<le> n" using m1 e r by linarith
    moreover have "?b * (n div ?b) + ?b \<le> ?b * ?b ^ Suc k" using m2 by (simp only: distrib_left mult_1_right)
    then have "n < ?b * ?b ^ Suc k" using e r by linarith
    ultimately have "?b ^ Suc k \<le> n" "n < ?b ^ Suc (Suc k)" by simp_all
    then show ?thesis using n by simp
  qed
qed

lemma powi_base_pos: "2 \<le> b \<Longrightarrow> (0::rat) < of_nat b powi e"
  by (simp add: power_int_def)

lemma powi_base_less_iff:
  assumes "2 \<le> b"
  shows "(of_nat b :: rat) powi e < of_nat b powi f \<longleftrightarrow> e < f"
proof
  assume "e < f"
  then show "(of_nat b :: rat) powi e < of_nat b powi f" using assms by (intro power_int_strict_increasing) simp_all
next
  assume l: "(of_nat b :: rat) powi e < of_nat b powi f"
  show "e < f"
  proof (rule ccontr)
    assume "\<not> e < f"
    then have "(of_nat b :: rat) powi f \<le> of_nat b powi e" using assms by (intro power_int_increasing) simp_all
    with l show False by simp
  qed
qed

lemma log_floor:
  assumes "0 < v" and "2 \<le> b"
  shows "of_nat b powi log_floor b v \<le> v" and "v < of_nat b powi (log_floor b v + 1)"
proof -
  let ?B = "of_nat b :: rat"
  have B: "1 < ?B" using assms(2) by simp
  obtain p q where pq: "quotient_of v = (p, q)" by (cases "quotient_of v")
  have q: "0 < q" using quotient_of_denom_pos [OF pq] .
  have v: "v = of_int p / of_int q" using quotient_of_div [OF pq] .
  have p: "0 < p" using assms q v by (simp add: zero_less_divide_iff)
  define a where "a = ndig b p"
  define c where "c = ndig b q"
  have pa: "int b ^ (a - 1) \<le> p" "p < int b ^ a" using ndig_bounds [of p b] p assms(2) by (simp_all add: a_def)
  have qc: "int b ^ (c - 1) \<le> q" "q < int b ^ c" using ndig_bounds [of q b] q assms(2) by (simp_all add: c_def)
  have a1: "1 \<le> a" using pa p by (cases a) simp_all
  have c1: "1 \<le> c" using qc q by (cases c) simp_all
  have ob: "?B ^ k = of_int (int b ^ k)" for k by simp
  have pr: "?B ^ (a - 1) \<le> of_int p" "of_int p < ?B ^ a"
    using pa unfolding ob by (simp_all only: of_int_le_iff of_int_less_iff)
  have qr: "?B ^ (c - 1) \<le> of_int q" "of_int q < ?B ^ c"
    using qc unfolding ob by (simp_all only: of_int_le_iff of_int_less_iff)
  have pw: "?B powi (int x - int y) = ?B ^ x / ?B ^ y" for x y
    using B by (simp add: power_int_diff)
  define e where "e = int a - int c"
  have lo: "?B powi (e - 1) < v"
  proof -
    have "e - 1 = int (a - 1) - int c" using a1 by (simp add: e_def)
    then have "?B powi (e - 1) = ?B ^ (a - 1) / ?B ^ c" by (simp only: pw)
    also have "\<dots> < of_int p / of_int q" using pr qr q B by (simp add: frac_less2)
    finally show ?thesis by (simp add: v)
  qed
  have hi: "v < ?B powi (e + 1)"
  proof -
    have "v = of_int p / of_int q" by (rule v)
    also have "\<dots> < ?B ^ a / ?B ^ (c - 1)" using pr(2) qr(1) p B by (intro frac_less) simp_all
    also have "\<dots> = ?B powi (int a - int (c - 1))" by (simp only: pw)
    also have "int a - int (c - 1) = e + 1" using c1 by (simp add: e_def)
    finally show ?thesis .
  qed
  have lf: "log_floor b v = (if ?B powi e \<le> v then e else e - 1)"
    by (simp add: log_floor_def pq a_def c_def e_def Let_def)
  show "?B powi log_floor b v \<le> v" using lo lf by (auto simp: less_imp_le)
  show "v < ?B powi (log_floor b v + 1)" using hi lf by auto
qed

lemma log_floor_unique:
  assumes "2 \<le> b" and "of_nat b powi e \<le> v" and "v < of_nat b powi (e + 1)"
  shows "log_floor b v = e"
proof -
  have v: "0 < v" using assms(2) powi_base_pos [OF assms(1), of e] by linarith
  have "(of_nat b :: rat) powi log_floor b v < of_nat b powi (e + 1)"
    using log_floor(1) [OF v assms(1)] assms(3) by linarith
  moreover have "(of_nat b :: rat) powi e < of_nat b powi (log_floor b v + 1)"
    using log_floor(2) [OF v assms(1)] assms(2) by linarith
  ultimately show ?thesis using powi_base_less_iff [OF assms(1)] by simp
qed

lemma powi_two_pos [simp]: "(0::rat) < 2 powi e"
  by (simp add: power_int_def)

lemma powi_two_mono: "(e::int) \<le> f \<Longrightarrow> (2::rat) powi e \<le> 2 powi f"
  by (rule power_int_increasing) simp_all

lemma powi_two_strict_mono: "(e::int) < f \<Longrightarrow> (2::rat) powi e < 2 powi f"
  by (rule power_int_strict_increasing) simp_all

lemma powi_two_less_iff [simp]: "(2::rat) powi e < 2 powi f \<longleftrightarrow> e < f"
  using powi_two_strict_mono powi_two_mono by (metis linorder_not_le)

lemma powi_two_le_iff [simp]: "(2::rat) powi e \<le> 2 powi f \<longleftrightarrow> e \<le> f"
  using powi_two_strict_mono powi_two_mono by (metis linorder_not_le)

lemma powi_two_add: "(2::rat) powi (e + f) = 2 powi e * 2 powi f"
  by (simp add: power_int_add)

lemma powi_two_nat [simp]: "(2::rat) powi int n = 2 ^ n"
  by (simp add: power_int_def)

lemma powi_two_diff_nat: "(2::rat) powi (int a - int b) = 2 ^ a / 2 ^ b"
  by (simp add: power_int_diff)

lemma log2_floor:
  assumes "0 < v"
  shows "2 powi log2_floor v \<le> v" and "v < 2 powi (log2_floor v + 1)"
  using log_floor [OF assms, of 2] by simp_all

subsection \<open>Rounding to an integer\<close>

lemma round_even_bounds:
  "\<bar>of_int (round_even x) - x\<bar> \<le> x - of_int \<lfloor>x\<rfloor>"
  "\<bar>of_int (round_even x) - x\<bar> \<le> of_int \<lfloor>x\<rfloor> + 1 - x"
proof -
  have f: "of_int \<lfloor>x\<rfloor> \<le> x" "x < of_int \<lfloor>x\<rfloor> + 1" by linarith+
  show "\<bar>of_int (round_even x) - x\<bar> \<le> x - of_int \<lfloor>x\<rfloor>"
    using f by (auto simp: round_even_def Let_def abs_le_iff)
  show "\<bar>of_int (round_even x) - x\<bar> \<le> of_int \<lfloor>x\<rfloor> + 1 - x"
    using f by (auto simp: round_even_def Let_def abs_le_iff)
qed

lemma round_even_nearest: "\<bar>of_int (round_even x) - x\<bar> \<le> \<bar>of_int k - x\<bar>"
proof -
  have f: "of_int \<lfloor>x\<rfloor> \<le> x" "x < of_int \<lfloor>x\<rfloor> + 1" by linarith+
  have "k \<le> \<lfloor>x\<rfloor> \<or> \<lfloor>x\<rfloor> + 1 \<le> k" by linarith
  then show ?thesis
  proof
    assume "k \<le> \<lfloor>x\<rfloor>"
    then have "(of_int k :: rat) \<le> of_int \<lfloor>x\<rfloor>" by simp
    with round_even_bounds(1) [of x] f show ?thesis by linarith
  next
    assume "\<lfloor>x\<rfloor> + 1 \<le> k"
    then have "(of_int \<lfloor>x\<rfloor> :: rat) + 1 \<le> of_int k" by (metis of_int_add of_int_le_iff of_int_1)
    with round_even_bounds(2) [of x] f show ?thesis by linarith
  qed
qed

lemma round_even_half: "\<bar>of_int (round_even x) - x\<bar> \<le> 1 / 2"
  using round_even_bounds [of x] by linarith

subsection \<open>Grids of multiples of a power of two\<close>

lemma on_grid_zero [simp]: "on_grid u 0"
  unfolding on_grid_def by (rule exI [of _ 0]) simp

lemma on_grid_mult: "on_grid u (of_int j * 2 powi u)"
  unfolding on_grid_def by blast

lemma on_grid_coarser:
  assumes "g \<le> t"
  shows "of_nat m * 2 powi t = of_int (int m * 2 ^ nat (t - g)) * (2::rat) powi g"
proof -
  have "(2::rat) powi t = 2 powi (t - g) * 2 powi g" by (simp add: powi_two_add [symmetric])
  moreover have "(2::rat) powi (t - g) = 2 ^ nat (t - g)" using assms by (simp add: power_int_def)
  ultimately show ?thesis by simp
qed

lemma b64_grid_min: "is_b64 w \<Longrightarrow> on_grid (-1074) w"
  unfolding is_b64_def on_grid_def by (metis on_grid_coarser)

lemma on_grid_b64:
  assumes "is_b64 w" and "2 powi s \<le> w"
  shows "on_grid (max (-1074) (s - 52)) w"
proof -
  obtain m t where w: "w = of_nat m * 2 powi t" "m < 2 ^ 53" "-1074 \<le> t" "t \<le> 971"
    using assms(1) by (auto simp: is_b64_def)
  define g where "g = max (-1074) (s - 52)"
  show ?thesis
  proof (cases "g \<le> t")
    case True
    then show ?thesis using w(1) by (simp only: g_def [symmetric] on_grid_def on_grid_coarser) blast
  next
    case False
    then have t: "t + 53 \<le> s" using w(3) by (simp add: g_def)
    have "(of_nat m :: rat) < 2 ^ 53" using w(2) by (simp add: of_nat_less_iff [symmetric])
    then have "w < 2 ^ 53 * 2 powi t" using w(1) by simp
    also have "\<dots> = 2 powi (t + 53)" by (simp add: powi_two_add)
    also have "\<dots> \<le> 2 powi s" using t by simp
    finally show ?thesis using assms(2) by simp
  qed
qed

lemma on_grid_dist:
  assumes "on_grid u x" "on_grid u y" "x \<noteq> y"
  shows "2 powi u \<le> \<bar>x - y\<bar>"
proof -
  obtain i j where ij: "x = of_int i * 2 powi u" "y = of_int j * 2 powi u"
    using assms(1,2) by (auto simp: on_grid_def)
  then have "i \<noteq> j" using assms(3) by auto
  then have "1 \<le> \<bar>of_int i - of_int j :: rat\<bar>" by linarith
  then have "1 * 2 powi u \<le> \<bar>of_int i - of_int j :: rat\<bar> * 2 powi u" by (intro mult_right_mono) simp_all
  then show ?thesis using ij by (simp add: abs_mult left_diff_distrib [symmetric])
qed

subsection \<open>Correct rounding\<close>

definition b64_threshold :: rat where
  "b64_threshold = max_b64 + 2 ^ 970"

lemma b64_threshold_eq: "b64_threshold = 2 ^ 1024 - 2 ^ 970"
  by (simp add: b64_threshold_def max_b64_def)

lemma b64_threshold_alt: "b64_threshold = (2 ^ 53 - 1 / 2) * 2 powi 971"
  by (simp add: b64_threshold_def max_b64_def power_int_def)

lemma b64_threshold_less: "b64_threshold < 2 powi 1024"
  by (simp add: b64_threshold_eq power_int_def)

lemma ulp_exp_ge: "log2_floor v - 52 \<le> ulp_exp v" "-1074 \<le> ulp_exp v"
  by (simp_all add: ulp_exp_def)

lemma round_b64_pos:
  "0 < v \<Longrightarrow> round_b64 v = of_int (round_even (v / 2 powi ulp_exp v)) * 2 powi ulp_exp v"
  by (simp add: round_b64_def)

lemma round_b64_nearest_grid:
  assumes "0 < v" and "on_grid (ulp_exp v) w"
  shows "\<bar>round_b64 v - v\<bar> \<le> \<bar>w - v\<bar>"
proof -
  define u where "u = ulp_exp v"
  obtain j where w: "w = of_int j * 2 powi u" using assms(2) by (auto simp: on_grid_def u_def)
  have p: "(0::rat) < 2 powi u" by simp
  have eq: "\<bar>of_int k * 2 powi u - v\<bar> = \<bar>of_int k - v / 2 powi u\<bar> * 2 powi u" for k
  proof -
    have "of_int k * 2 powi u - v = (of_int k - v / 2 powi u) * 2 powi u" using p by (simp add: field_simps)
    then show ?thesis by (simp add: abs_mult)
  qed
  have "\<bar>round_b64 v - v\<bar> = \<bar>of_int (round_even (v / 2 powi u)) - v / 2 powi u\<bar> * 2 powi u"
    using assms(1) by (simp add: round_b64_pos u_def [symmetric] eq)
  also have "\<dots> \<le> \<bar>of_int j - v / 2 powi u\<bar> * 2 powi u"
    using p by (intro mult_right_mono round_even_nearest) simp
  also have "\<dots> = \<bar>w - v\<bar>" by (simp add: w eq)
  finally show ?thesis .
qed

lemma round_b64_closer:
  assumes "0 < v" and "is_b64 w"
  shows "\<bar>round_b64 v - v\<bar> \<le> \<bar>w - v\<bar>"
proof -
  define e where "e = log2_floor v"
  have ev: "2 powi e \<le> v" using log2_floor(1) [OF assms(1)] by (simp add: e_def)
  show ?thesis
  proof (cases "2 powi e \<le> w \<or> ulp_exp v = -1074")
    case True
    then have "on_grid (ulp_exp v) w"
      using on_grid_b64 [OF assms(2), of e] b64_grid_min [OF assms(2)] by (auto simp: ulp_exp_def e_def)
    then show ?thesis by (rule round_b64_nearest_grid [OF assms(1)])
  next
    case False
    then have u: "ulp_exp v = e - 52" and w: "w < 2 powi e" by (auto simp: ulp_exp_def e_def)
    have "(2::rat) powi e = 2 powi (52 + (e - 52))" by simp
    also have "\<dots> = 2 powi 52 * 2 powi (e - 52)" by (rule powi_two_add)
    also have "(2::rat) powi 52 = of_int (2 ^ 52)" by (simp add: power_int_def)
    finally have "(2::rat) powi e = of_int (2 ^ 52) * 2 powi (e - 52)" .
    then have "on_grid (e - 52) (2 powi e)" unfolding on_grid_def by (rule exI)
    then have "on_grid (ulp_exp v) (2 powi e)" by (simp only: u)
    then have "\<bar>round_b64 v - v\<bar> \<le> \<bar>2 powi e - v\<bar>" by (rule round_b64_nearest_grid [OF assms(1)])
    also have "\<dots> \<le> \<bar>w - v\<bar>" using ev w by simp
    finally show ?thesis .
  qed
qed

lemma round_b64_is_b64:
  assumes "0 \<le> v" and "v < b64_threshold"
  shows "is_b64 (round_b64 v)"
proof (cases "v = 0")
  case True
  then show ?thesis by (auto simp: round_b64_def is_b64_def intro: exI [of _ 0] exI [of _ 0])
next
  case False
  then have v: "0 < v" using assms(1) by simp
  define e where "e = log2_floor v"
  define u where "u = ulp_exp v"
  define k where "k = round_even (v / 2 powi u)"
  have ev: "2 powi e \<le> v" "v < 2 powi (e + 1)" using log2_floor [OF v] by (simp_all add: e_def)
  have "(2::rat) powi e < 2 powi 1024" using ev(1) assms(2) b64_threshold_less by linarith
  then have "e < 1024" by (simp only: powi_two_less_iff)
  then have e: "e \<le> 1023" by simp
  have ue: "e - 52 \<le> u" "-1074 \<le> u" "u \<le> 971" using e by (auto simp: u_def ulp_exp_def e_def)
  have "v / 2 powi u < 2 powi (e + 1) / 2 powi u" using ev(2) by (simp add: divide_strict_right_mono)
  also have "\<dots> = 2 powi (e + 1 - u)" by (simp add: power_int_diff)
  also have "\<dots> \<le> 2 powi 53" using ue(1) by (simp only: powi_two_le_iff)
  also have "(2::rat) powi 53 = 2 ^ 53" by (simp add: power_int_def)
  finally have x53: "v / 2 powi u < 2 ^ 53" .
  have h: "\<bar>of_int k - v / 2 powi u\<bar> \<le> 1 / 2" unfolding k_def by (rule round_even_half)
  have q: "0 < v / 2 powi u" using v by simp
  have kb: "(of_int k :: rat) < 2 ^ 53 + 1" "(0::rat) < of_int k + 1" "of_int k \<le> v / 2 powi u + 1 / 2"
    using abs_le_D1 [OF h] abs_le_D2 [OF h] x53 q by linarith+
  have "(of_int k :: rat) < of_int (2 ^ 53 + 1)" "(of_int 0 :: rat) < of_int (k + 1)" using kb(1,2) by simp_all
  then have k: "k \<le> 2 ^ 53" "0 \<le> k" by (simp_all only: of_int_less_iff)
  have r: "round_b64 v = of_int k * 2 powi u" by (simp add: round_b64_pos [OF v] k_def u_def)
  show ?thesis
  proof (cases "k = 2 ^ 53")
    case True
    have "u \<le> 970"
    proof (rule ccontr)
      assume "\<not> u \<le> 970"
      then have "u = 971" using ue(3) by simp
      then have "2 ^ 53 - 1 / 2 \<le> v / 2 powi 971" using kb(3) True by simp
      then have "(2 ^ 53 - 1 / 2) * 2 powi 971 \<le> v" by (simp add: pos_le_divide_eq)
      then show False using assms(2) by (simp only: b64_threshold_alt)
    qed
    have "round_b64 v = of_nat (2 ^ 52) * 2 powi (u + 1)" using r True by (simp add: powi_two_add)
    moreover have "(2::nat) ^ 52 < 2 ^ 53" "-1074 \<le> u + 1" "u + 1 \<le> 971" using ue \<open>u \<le> 970\<close> by simp_all
    ultimately show ?thesis unfolding is_b64_def by blast
  next
    case False
    then have "nat k < 2 ^ 53" using k by (simp add: nat_less_iff)
    moreover have "round_b64 v = of_nat (nat k) * 2 powi u" using r k by simp
    ultimately show ?thesis using ue by (auto simp: is_b64_def)
  qed
qed

lemma b64_le_max: "is_b64 x \<Longrightarrow> 0 \<le> x \<and> x \<le> max_b64"
proof -
  assume "is_b64 x"
  then obtain m u where x: "x = of_nat m * 2 powi u" "m < 2 ^ 53" "u \<le> 971" by (auto simp: is_b64_def)
  have "(of_nat m :: rat) \<le> 2 ^ 53 - 1" using x(2) by (simp add: of_nat_le_iff [symmetric] nat_less_iff)
  moreover have "(2::rat) powi u \<le> 2 ^ 971" using x(3) powi_two_mono [of u 971] by simp
  ultimately have "of_nat m * 2 powi u \<le> (2 ^ 53 - 1) * (2::rat) ^ 971" by (intro mult_mono) simp_all
  then show ?thesis using x(1) by (simp add: max_b64_def)
qed

lemma b64_below_threshold: "is_b64 x \<Longrightarrow> x < b64_threshold"
  using b64_le_max [of x] by (simp add: b64_threshold_def)

lemma round_b64_closest_set:
  assumes "0 \<le> v" and "v < b64_threshold"
  shows "is_closest {x. is_b64 x} v (round_b64 v)"
proof (cases "v = 0")
  case True
  then show ?thesis using round_b64_is_b64 [OF assms] by (simp add: is_closest_def round_b64_def)
next
  case False
  then have "0 < v" using assms(1) by simp
  then show ?thesis using round_b64_is_b64 [OF assms] round_b64_closer by (simp add: is_closest_def)
qed

lemma round_b64_id: "is_b64 x \<Longrightarrow> round_b64 x = x"
proof -
  assume x: "is_b64 x"
  have "0 \<le> x" "x < b64_threshold" using b64_le_max [OF x] b64_below_threshold [OF x] by simp_all
  then have "is_closest {x. is_b64 x} x (round_b64 x)" by (rule round_b64_closest_set)
  then have "\<forall>b. is_b64 b \<longrightarrow> \<bar>round_b64 x - x\<bar> \<le> \<bar>b - x\<bar>" by (simp add: is_closest_def)
  then have "\<bar>round_b64 x - x\<bar> \<le> \<bar>x - x\<bar>" using x by blast
  then show ?thesis by simp
qed

text \<open>Distinct values of the format are at least a \<open>2^-53\<close> fraction of
  the larger magnitude apart.\<close>

lemma gap_lin: "(t::rat) \<le> E - w \<Longrightarrow> 9007199254740992 * t = E \<Longrightarrow> E \<le> x \<Longrightarrow> x \<le> 9007199254740992 * (x - w)"
  by (simp add: algebra_simps)

lemma b64_gap:
  assumes "is_b64 x" "is_b64 w" "0 < x" "w \<noteq> x"
  shows "x \<le> 2 ^ 53 * \<bar>w - x\<bar>"
proof -
  define e where "e = log2_floor x"
  define u where "u = ulp_exp x"
  have ex: "2 powi e \<le> x" "x < 2 powi (e + 1)" using log2_floor [OF assms(3)] by (simp_all add: e_def)
  have ue: "e - 52 \<le> u" using ulp_exp_ge by (simp add: u_def e_def)
  have gx: "on_grid u x" using on_grid_b64 [OF assms(1) ex(1)] by (simp add: u_def ulp_exp_def e_def)
  have top: "x < 2 ^ 53 * 2 powi u"
  proof -
    have "x < 2 powi (e + 1)" by (rule ex(2))
    also have "\<dots> \<le> 2 powi (53 + u)" using ue by simp
    also have "\<dots> = 2 ^ 53 * 2 powi u" by (simp add: powi_two_add)
    finally show ?thesis .
  qed
  show ?thesis
  proof (cases "on_grid u w")
    case True
    then have "2 powi u \<le> \<bar>w - x\<bar>" using gx assms(4) by (rule on_grid_dist)
    then show ?thesis using top by simp
  next
    case False
    have w: "w < 2 powi e"
    proof (rule ccontr)
      assume "\<not> w < 2 powi e"
      then have "on_grid u w" using on_grid_b64 [OF assms(2), of e] by (simp add: u_def ulp_exp_def e_def)
      with False show False by simp
    qed
    have "u \<noteq> -1074" using False b64_grid_min [OF assms(2)] by auto
    then have u: "u = e - 52" and u1: "-1074 \<le> u - 1" by (auto simp: u_def ulp_exp_def e_def)
    have "2 powi (u - 1) \<le> 2 powi e - w"
    proof (cases "2 powi (e - 1) \<le> w")
      case True
      then have gw: "on_grid (u - 1) w" using on_grid_b64 [OF assms(2), of "e - 1"] u1 u by (simp add: max_def)
      have "(2::rat) powi e = of_int (2 ^ 53) * 2 powi (u - 1)"
      proof -
        have "(2::rat) powi e = 2 powi (53 + (u - 1))" using u by simp
        also have "\<dots> = 2 powi 53 * 2 powi (u - 1)" by (rule powi_two_add)
        also have "(2::rat) powi 53 = of_int (2 ^ 53)" by (simp add: power_int_def)
        finally show ?thesis .
      qed
      then have "on_grid (u - 1) (2 powi e)" unfolding on_grid_def by (rule exI)
      then have "2 powi (u - 1) \<le> \<bar>2 powi e - w\<bar>" using gw w by (intro on_grid_dist) simp_all
      then show ?thesis using w by simp
    next
      case False
      have a: "(2::rat) powi e = 2 powi (e - 1) + 2 powi (e - 1)"
        using powi_two_add [of "e - 1" 1] by simp
      have b: "(2::rat) powi (u - 1) \<le> 2 powi (e - 1)" using u by (simp only: powi_two_le_iff)
      from a b False show ?thesis by linarith
    qed
    moreover have "(2::rat) ^ 53 * 2 powi (u - 1) = 2 powi e"
    proof -
      have "(2::rat) powi (53 + (u - 1)) = 2 powi 53 * 2 powi (u - 1)" by (rule powi_two_add)
      moreover have "(2::rat) powi 53 = 2 ^ 53" by (simp add: power_int_def)
      moreover have "53 + (u - 1) = e" using u by simp
      ultimately show ?thesis by simp
    qed
    moreover have p53: "(2::rat) ^ 53 = 9007199254740992" by simp
    ultimately have "x \<le> 9007199254740992 * (x - w)" using ex(1) by (simp only: p53) (rule gap_lin)
    then have "x \<le> 2 ^ 53 * (x - w)" by (simp only: p53)
    then show ?thesis using w ex(1) by simp
  qed
qed

lemma lin_half: "2 * a < b \<Longrightarrow> b \<le> d + a \<Longrightarrow> (a::rat) < d"
  by linarith

lemma round_b64_unique:
  assumes "0 \<le> c" "c < b64_threshold" "is_b64 x"
    and closer: "\<And>w. is_b64 w \<Longrightarrow> w \<noteq> x \<Longrightarrow> \<bar>x - c\<bar> < \<bar>w - c\<bar>"
  shows "round_b64 c = x"
proof (rule ccontr)
  assume ne: "round_b64 c \<noteq> x"
  have "is_closest {x. is_b64 x} c (round_b64 c)" using assms(1,2) by (rule round_b64_closest_set)
  then have "is_b64 (round_b64 c)" "\<bar>round_b64 c - c\<bar> \<le> \<bar>x - c\<bar>"
    using assms(3) by (auto simp: is_closest_def)
  with closer [OF _ ne] show False by simp
qed

text \<open>A rational within a \<open>2^-54\<close> fraction of a value of the format
  rounds to that value.\<close>

lemma round_b64_recover:
  assumes "is_b64 x" "0 < x" "0 \<le> c" and near: "2 ^ 54 * \<bar>c - x\<bar> < x"
  shows "round_b64 c = x"
proof (rule round_b64_unique [OF assms(3) _ assms(1)])
  have "2 ^ 54 * c < (2 ^ 54 + 1) * x" using near abs_ge_self [of "c - x"] by (simp add: algebra_simps)
  moreover have "(2 ^ 54 + 1) * x \<le> (2 ^ 54 + 1) * max_b64" using b64_le_max [OF assms(1)] by simp
  moreover have "(2 ^ 54 + 1) * max_b64 < 2 ^ 54 * b64_threshold" by (simp add: b64_threshold_def max_b64_def)
  ultimately have "2 ^ 54 * c < 2 ^ 54 * b64_threshold" by (meson less_le_trans less_trans)
  then show "c < b64_threshold" by simp
next
  fix w assume w: "is_b64 w" "w \<noteq> x"
  have "x \<le> 2 ^ 53 * \<bar>w - x\<bar>" using b64_gap [OF assms(1) w(1) assms(2) w(2)] .
  then have "2 * \<bar>c - x\<bar> < \<bar>w - x\<bar>" using near by simp
  moreover have "\<bar>w - x\<bar> \<le> \<bar>w - c\<bar> + \<bar>c - x\<bar>" using abs_triangle_ineq [of "w - c" "c - x"] by simp
  ultimately have "\<bar>c - x\<bar> < \<bar>w - c\<bar>" by (rule lin_half)
  then show "\<bar>x - c\<bar> < \<bar>w - c\<bar>" by (simp add: abs_minus_commute)
qed

lemma is_b64_nat: "n < 2 ^ 53 \<Longrightarrow> is_b64 (of_nat n)"
  unfolding is_b64_def by (rule exI [of _ n], rule exI [of _ 0]) simp

lemma round_b64_numeral [simp]: "(numeral n :: rat) < 2 ^ 53 \<Longrightarrow> round_b64 (numeral n) = numeral n"
proof -
  assume a: "(numeral n :: rat) < 2 ^ 53"
  have "(of_nat (numeral n) :: rat) < of_nat (2 ^ 53)" using a by simp
  then have "(numeral n :: nat) < 2 ^ 53" by (simp only: of_nat_less_iff)
  then have "is_b64 (of_nat (numeral n))" by (rule is_b64_nat)
  then show ?thesis using round_b64_id by simp
qed

lemma round_b64_one [simp]: "round_b64 1 = 1"
  using round_b64_id [OF is_b64_nat [of 1]] by simp

lemma b64_min: "is_b64 v \<Longrightarrow> v \<noteq> 0 \<Longrightarrow> 2 powi (-1074) \<le> v"
proof -
  assume "is_b64 v" "v \<noteq> 0"
  then obtain m u where v: "v = of_nat m * 2 powi u" "-1074 \<le> u" "0 < m" by (auto simp: is_b64_def)
  have "(2::rat) powi (-1074) \<le> 2 powi u" using v(2) by (simp only: powi_two_le_iff)
  also have "\<dots> \<le> of_nat m * 2 powi u" using v(3) by simp
  finally show ?thesis using v(1) by simp
qed

lemma is_b64_zero [simp]: "is_b64 0"
  unfolding is_b64_def by (rule exI [of _ 0], rule exI [of _ 0]) simp

lemma round_b64_zero [simp]: "round_b64 0 = 0"
  by (simp add: round_b64_def)


subsection \<open>What rounds to a value of the format\<close>

lemma round_even_floor: "\<lfloor>s\<rfloor> \<le> round_even s"
  by (simp add: round_even_def Let_def)

lemma round_even_even_ge:
  assumes "even j" and "of_int j - 1 / 2 \<le> s"
  shows "j \<le> round_even s"
proof -
  have "of_int (j - 1) \<le> s" using assms(2) by simp
  then have "j - 1 \<le> \<lfloor>s\<rfloor>" by (simp only: le_floor_iff)
  then consider "j \<le> \<lfloor>s\<rfloor>" | "\<lfloor>s\<rfloor> = j - 1" by linarith
  then show ?thesis
  proof cases
    case 1
    then show ?thesis using round_even_floor [of s] by linarith
  next
    case 2
    then have "1 / 2 \<le> s - of_int \<lfloor>s\<rfloor>" "odd \<lfloor>s\<rfloor>" using assms by simp_all
    with 2 show ?thesis by (auto simp: round_even_def Let_def)
  qed
qed

lemma round_even_small: "0 \<le> s \<Longrightarrow> s \<le> 1 / 2 \<Longrightarrow> round_even s = 0"
proof -
  assume s: "0 \<le> s" "s \<le> 1 / 2"
  then have "\<lfloor>s\<rfloor> = 0" by (simp add: floor_eq_iff)
  with s show ?thesis by (simp add: round_even_def Let_def)
qed

lemma b64_threshold_ge: "2 powi 1023 \<le> b64_threshold"
  by (simp add: b64_threshold_eq power_int_def)

lemma round_b64_overflow:
  assumes "b64_threshold \<le> c"
  shows "2 powi 1024 \<le> round_b64 c"
proof -
  have c: "0 < c" using assms b64_threshold_ge [THEN less_le_trans [OF powi_two_pos]] by simp
  define e where "e = log2_floor c"
  define u where "u = ulp_exp c"
  have ec: "2 powi e \<le> c" "c < 2 powi (e + 1)" using log2_floor [OF c] by (simp_all add: e_def)
  have "(2::rat) powi 1023 < 2 powi (e + 1)" using b64_threshold_ge assms ec(2) by linarith
  then have "1023 \<le> e" by (simp only: powi_two_less_iff)
  then have u: "u = e - 52" "971 \<le> u" by (simp_all add: u_def ulp_exp_def e_def)
  have "(2::rat) powi 52 = 2 powi e / 2 powi u" using u(1) by (simp add: power_int_diff)
  also have "\<dots> \<le> c / 2 powi u" using ec(1) by (simp add: divide_right_mono)
  finally have s52: "(2::rat) powi 52 \<le> c / 2 powi u" .
  have r: "round_b64 c = of_int (round_even (c / 2 powi u)) * 2 powi u"
    by (simp add: round_b64_pos [OF c] u_def)
  show ?thesis
  proof (cases "u = 971")
    case True
    have "(2 ^ 53 - 1 / 2) * 2 powi 971 \<le> c" using assms by (simp only: b64_threshold_alt)
    then have "of_int (2 ^ 53) - 1 / 2 \<le> c / 2 powi 971" by (simp add: pos_le_divide_eq)
    then have "2 ^ 53 \<le> round_even (c / 2 powi u)" using True by (intro round_even_even_ge) simp_all
    then have "(2::rat) ^ 53 \<le> of_int (round_even (c / 2 powi u))"
      by (metis of_int_le_iff of_int_numeral of_int_power)
    then have "2 ^ 53 * 2 powi 971 \<le> round_b64 c" using r True by (simp add: mult_right_mono)
    moreover have "(2::rat) ^ 53 * 2 powi 971 = 2 powi 1024" by (simp add: power_int_def)
    ultimately show ?thesis by simp
  next
    case False
    then have u972: "972 \<le> u" using u(2) by simp
    have "(2::rat) ^ 52 \<le> c / 2 powi u" using s52 by (simp add: power_int_def)
    then have "of_int (2 ^ 52) \<le> c / 2 powi u" by simp
    then have "2 ^ 52 \<le> \<lfloor>c / 2 powi u\<rfloor>" by (simp only: le_floor_iff)
    then have "2 ^ 52 \<le> round_even (c / 2 powi u)" using round_even_floor by (rule order_trans)
    then have "(2::rat) ^ 52 \<le> of_int (round_even (c / 2 powi u))"
      by (metis of_int_le_iff of_int_numeral of_int_power)
    moreover have "(2::rat) powi 972 \<le> 2 powi u" using u972 by (simp only: powi_two_le_iff)
    moreover have "(0::rat) \<le> 2 ^ 52" by simp
    ultimately have "(2::rat) ^ 52 * 2 powi 972 \<le> of_int (round_even (c / 2 powi u)) * 2 powi u"
      by (intro mult_mono) (simp_all add: order_trans [of 0 "2 ^ 52"])
    then have "2 ^ 52 * 2 powi 972 \<le> round_b64 c" using r by simp
    moreover have "(2::rat) ^ 52 * 2 powi 972 = 2 powi 1024" by (simp add: power_int_def)
    ultimately show ?thesis by simp
  qed
qed

lemma round_b64_underflow:
  assumes "c \<le> 2 powi (-1075)"
  shows "round_b64 c = 0"
proof (cases "c \<le> 0")
  case True
  then show ?thesis by (simp add: round_b64_def)
next
  case False
  then have c: "0 < c" by simp
  define e where "e = log2_floor c"
  have "2 powi e \<le> c" using log2_floor [OF c] by (simp add: e_def)
  then have "(2::rat) powi e \<le> 2 powi (-1075)" using assms by linarith
  then have "e \<le> -1075" by (simp only: powi_two_le_iff)
  then have u: "ulp_exp c = -1074" by (simp add: ulp_exp_def e_def)
  have "c / 2 powi (-1074) \<le> 2 powi (-1075) / 2 powi (-1074)" using assms by (simp add: divide_right_mono)
  also have "(2::rat) powi (-1075) / 2 powi (-1074) = 2 powi (-1075 - (-1074))"
    by (rule power_int_diff [symmetric]) simp
  also have "\<dots> = 1 / 2" by simp
  finally have "round_even (c / 2 powi (-1074)) = 0" using c by (intro round_even_small) simp_all
  then show ?thesis by (simp add: round_b64_pos [OF c] u)
qed

lemma round_b64_preimage:
  assumes "is_b64 x" "0 < x" "round_b64 c = x"
  shows "2 powi (-1075) < c" and "c < b64_threshold"
proof -
  show "2 powi (-1075) < c"
    using round_b64_underflow [of c] assms(2,3) by (cases "c \<le> 2 powi (-1075)") simp_all
  have "x < 2 powi 1024" using b64_below_threshold [OF assms(1)] b64_threshold_less by simp
  then show "c < b64_threshold" using round_b64_overflow [of c] assms(3) by (cases "b64_threshold \<le> c") simp_all
qed

lemma round_b64_mono:
  assumes "0 \<le> a" "a \<le> b" "b < b64_threshold"
  shows "round_b64 a \<le> round_b64 b"
proof (rule ccontr)
  assume lt: "\<not> round_b64 a \<le> round_b64 b"
  have ba: "is_b64 (round_b64 a)" "is_b64 (round_b64 b)"
    using assms round_b64_is_b64 by simp_all
  have ca: "is_closest {x. is_b64 x} a (round_b64 a)" using assms by (intro round_b64_closest_set) simp_all
  have cb: "is_closest {x. is_b64 x} b (round_b64 b)" using assms by (intro round_b64_closest_set) simp_all
  have "\<bar>round_b64 a - a\<bar> \<le> \<bar>round_b64 b - a\<bar>" using ca ba by (simp add: is_closest_def)
  moreover have "\<bar>round_b64 b - b\<bar> \<le> \<bar>round_b64 a - b\<bar>" using cb ba by (simp add: is_closest_def)
  ultimately have "a = b" using lt assms(2) by (simp add: abs_if split: if_splits)
  with lt show False by simp
qed

end
