(* ===== verification/PyFloat.thy ===== *)
theory PyFloat
  imports Prelude PyStr Binary64
begin

text \<open>
  Python's \<open>float(x)\<close> on a \<open>str\<close>, as \<open>read_arduino\<close> applies it to each
  of the three fields of a line (\<open>src/app.py\<close> line 69,
  \<open>temp, hum, soil = map(float, values)\<close>). The model follows CPython's
  \<open>PyFloat_FromString\<close>: non-ASCII white space becomes a space and any
  other non-ASCII character a character no number contains
  (\<open>_PyUnicode_TransformDecimalAndSpaceToASCII\<close>); underscores are allowed
  only between two digits and are then removed
  (\<open>_Py_string_to_number_with_underscores\<close>); leading and trailing ASCII
  white space is skipped; the rest must be consumed entirely by the decimal
  parser \<open>_Py_dg_strtod\<close> or, when that parser reads nothing, by
  \<open>_Py_parse_inf_or_nan\<close>. Anything else raises \<open>ValueError\<close>.

  A finite result is its sign and the magnitude rounded to the nearest
  binary64 value, ties to even (\<open>Binary64.round_b64\<close>); magnitudes from
  \<open>2^1024 - 2^970\<close> on become infinity and those up to \<open>2^-1075\<close> zero. CPython also maps the non-ASCII decimal digits of Unicode category Nd
  to ASCII digits; this model does not carry that table and treats them like
  other non-ASCII characters.
\<close>

datatype pyfloat = Fin bool rat | Inf bool | NaN bool

text \<open>The flag is the sign bit: \<open>Fin True 0\<close> is \<open>-0.0\<close>.\<close>

definition is_digit :: "codepoint \<Rightarrow> bool" where
  "is_digit c \<longleftrightarrow> 48 \<le> c \<and> c \<le> 57"

definition ascii_space :: "codepoint \<Rightarrow> bool" where
  "ascii_space c \<longleftrightarrow> c = 32 \<or> (9 \<le> c \<and> c \<le> 13)"

definition transform_decimal_and_space :: "pystr \<Rightarrow> pystr" where
  "transform_decimal_and_space s =
     map (\<lambda>c. if c < 128 then c else if py_isspace c then 32 else 63) s"

fun remove_underscores :: "codepoint \<Rightarrow> pystr \<Rightarrow> pystr option" where
  "remove_underscores prev [] = (if prev = 95 then None else Some [])"
| "remove_underscores prev (c # cs) =
     (if c = 95 then (if is_digit prev then remove_underscores c cs else None)
      else if prev = 95 \<and> \<not> is_digit c then None
      else map_option (Cons c) (remove_underscores c cs))"

definition digits_value :: "pystr \<Rightarrow> nat" where
  "digits_value ds = foldl (\<lambda>n d. 10 * n + (d - 48)) 0 ds"

definition decimal_value :: "pystr \<Rightarrow> int \<Rightarrow> rat" where
  "decimal_value ds e =
     (if 0 \<le> e then of_nat (digits_value ds) * 10 ^ nat e
      else of_nat (digits_value ds) / 10 ^ nat (- e))"

definition take_sign :: "pystr \<Rightarrow> bool \<times> pystr" where
  "take_sign s = (case s of c # r \<Rightarrow> if c = 45 then (True, r) else if c = 43 then (False, r) else (False, s)
                          | [] \<Rightarrow> (False, s))"

definition parse_exponent :: "pystr \<Rightarrow> int \<times> pystr" where
  "parse_exponent s =
     (case s of
        c # r \<Rightarrow>
          if c = 101 \<or> c = 69 then
            (let (eneg, r1) = take_sign r; ds = takeWhile is_digit r1
             in if ds = [] then (0, s)
                else (if eneg then - int (digits_value ds) else int (digits_value ds),
                      dropWhile is_digit r1))
          else (0, s)
      | [] \<Rightarrow> (0, s))"

definition overflow_bound :: rat where
  "overflow_bound = 2 ^ 1024 - 2 ^ 970"

definition underflow_bound :: rat where
  "underflow_bound = 1 / 2 ^ 1075"

definition round_range :: "bool \<Rightarrow> rat \<Rightarrow> pyfloat" where
  "round_range neg v =
     (if overflow_bound \<le> v then Inf neg else if v \<le> underflow_bound then Fin neg 0
      else Fin neg (round_b64 v))"

definition dg_strtod :: "pystr \<Rightarrow> (pyfloat \<times> pystr) option" where
  "dg_strtod s =
     (let (neg, s1) = take_sign s;
          ip = takeWhile is_digit s1;
          s2 = dropWhile is_digit s1;
          (fp, s3) = (case s2 of
                        c # r \<Rightarrow> if c = 46 then (takeWhile is_digit r, dropWhile is_digit r)
                                 else ([], s2)
                      | [] \<Rightarrow> ([], s2))
      in if ip = [] \<and> fp = [] then None
         else (let (e, s4) = parse_exponent s3
               in Some (round_range neg (decimal_value (ip @ fp) (e - int (length fp))), s4)))"

definition ascii_lower :: "codepoint \<Rightarrow> codepoint" where
  "ascii_lower c = (if 65 \<le> c \<and> c \<le> 90 then c + 32 else c)"

definition ci_prefix :: "string \<Rightarrow> pystr \<Rightarrow> bool" where
  "ci_prefix w s \<longleftrightarrow> map ascii_lower (take (length w) s) = lit w"

definition parse_inf_or_nan :: "pystr \<Rightarrow> (pyfloat \<times> pystr) option" where
  "parse_inf_or_nan s =
     (let (neg, s1) = take_sign s
      in if ci_prefix ''inf'' s1 then
           Some (Inf neg, if ci_prefix ''inity'' (drop 3 s1) then drop 8 s1 else drop 3 s1)
         else if ci_prefix ''nan'' s1 then Some (NaN neg, drop 3 s1)
         else None)"

definition float_inner :: "pystr \<Rightarrow> pystr \<Rightarrow> exn + pyfloat" where
  "float_inner x s =
     (let s1 = dropWhile ascii_space s
      in if s1 = [] then Inl (ValueError x)
         else
           (let s2 = rev (dropWhile ascii_space (rev s1))
            in case (case dg_strtod s2 of None \<Rightarrow> parse_inf_or_nan s2 | r \<Rightarrow> r) of
                 Some (v, []) \<Rightarrow> Inr v
               | _ \<Rightarrow> Inl (ValueError x)))"

definition py_float :: "pystr \<Rightarrow> exn + pyfloat" where
  "py_float x =
     (let s = transform_decimal_and_space x
      in if 95 \<notin> set s then float_inner x s
         else (case remove_underscores 0 s of
                 None \<Rightarrow> Inl (ValueError x)
               | Some s' \<Rightarrow> float_inner x s'))"

subsection \<open>The sender's number format\<close>

text \<open>
  \<open>show_decimal m k\<close> is the text of \<open>m / 10^k\<close> with \<open>k\<close> fraction
  digits, as a microcontroller prints a reading (\<open>Serial.print(x, k)\<close>): an
  optional minus sign, the integer digits, and for \<open>k > 0\<close> a point and
  exactly \<open>k\<close> digits.
\<close>

fun nat_digits :: "nat \<Rightarrow> pystr" where
  "nat_digits n = (if n < 10 then [48 + n] else nat_digits (n div 10) @ [48 + n mod 10])"

declare nat_digits.simps [simp del]

definition show_decimal :: "int \<Rightarrow> nat \<Rightarrow> pystr" where
  "show_decimal m k =
     (let ds = replicate (Suc k - length (nat_digits (nat \<bar>m\<bar>))) 48 @ nat_digits (nat \<bar>m\<bar>);
          n = length ds - k
      in (if m < 0 then [45] else []) @ take n ds @ (if k = 0 then [] else 46 # drop n ds))"

lemmas pyfloat_defs [model_defs] = is_digit_def ascii_space_def transform_decimal_and_space_def
  digits_value_def decimal_value_def take_sign_def parse_exponent_def round_range_def
  overflow_bound_def underflow_bound_def dg_strtod_def ascii_lower_def ci_prefix_def
  parse_inf_or_nan_def float_inner_def py_float_def show_decimal_def

subsection \<open>Lemmas\<close>

lemma nat_digits_props:
  "nat_digits n \<noteq> [] \<and> (\<forall>c \<in> set (nat_digits n). is_digit c) \<and> digits_value (nat_digits n) = n"
proof (induction n rule: nat_digits.induct)
  case (1 n)
  show ?case
  proof (cases "n < 10")
    case True
    then show ?thesis by (simp add: nat_digits.simps is_digit_def digits_value_def)
  next
    case False
    with "1.IH" have "nat_digits n = nat_digits (n div 10) @ [48 + n mod 10]"
      "\<forall>c \<in> set (nat_digits (n div 10)). is_digit c" "digits_value (nat_digits (n div 10)) = n div 10"
      by (simp_all add: nat_digits.simps [of n])
    then show ?thesis
      by (simp add: is_digit_def digits_value_def)
  qed
qed

lemma digits_value_zeros: "digits_value (replicate z 48 @ ds) = digits_value ds"
proof -
  have "foldl (\<lambda>n d. 10 * n + (d - 48)) (0::nat) (replicate z (48::nat)) = 0"
    by (induction z) simp_all
  then show ?thesis by (simp add: digits_value_def)
qed

subsection \<open>Parsing a plain decimal\<close>

lemma dg_strtod_decimal:
  assumes "ip \<noteq> []" "\<forall>c \<in> set ip. is_digit c" "\<forall>c \<in> set fp. is_digit c"
  shows "dg_strtod ((if neg then [45] else []) @ ip @ 46 # fp)
           = Some (round_range neg (decimal_value (ip @ fp) (- int (length fp))), [])"
    and "dg_strtod ((if neg then [45] else []) @ ip)
           = Some (round_range neg (decimal_value ip 0), [])"
proof -
  have sign: "take_sign ((if neg then [45] else []) @ ip @ r) = (neg, ip @ r)" for r
    using assms(1,2) by (cases ip) (auto simp: take_sign_def is_digit_def)
  have dot: "\<not> is_digit 46" by (simp add: is_digit_def)
  show "dg_strtod ((if neg then [45] else []) @ ip @ 46 # fp)
          = Some (round_range neg (decimal_value (ip @ fp) (- int (length fp))), [])"
    using assms sign [of "46 # fp"] dot
    by (simp add: dg_strtod_def takeWhile_all dropWhile_all parse_exponent_def)
  show "dg_strtod ((if neg then [45] else []) @ ip) = Some (round_range neg (decimal_value ip 0), [])"
    using assms sign [of "[]"]
    by (simp add: dg_strtod_def takeWhile_all dropWhile_all parse_exponent_def)
qed

lemma float_inner_exact:
  assumes "s \<noteq> []" "\<not> ascii_space (hd s)" "\<not> ascii_space (last s)"
    "(case dg_strtod s of None \<Rightarrow> parse_inf_or_nan s | r \<Rightarrow> r) = Some (v, [])"
  shows "float_inner x s = Inr v"
proof -
  have "dropWhile ascii_space s = s"
    using assms(1,2) by (cases s) simp_all
  moreover have "dropWhile ascii_space (rev s) = rev s"
    using assms(1,3) by (cases s rule: rev_cases) simp_all
  ultimately show ?thesis
    using assms(1,4) by (simp add: float_inner_def)
qed

lemma py_float_plain:
  assumes "\<forall>c \<in> set s. c < 128 \<and> c \<noteq> 95"
  shows "py_float s = float_inner s s"
proof -
  have "transform_decimal_and_space s = s"
    using assms by (induction s) (simp_all add: transform_decimal_and_space_def)
  with assms show ?thesis by (auto simp: py_float_def)
qed

lemma show_decimal_parts:
  fixes m :: int and k :: nat
  defines "ds \<equiv> replicate (Suc k - length (nat_digits (nat \<bar>m\<bar>))) 48 @ nat_digits (nat \<bar>m\<bar>)"
  shows "ds \<noteq> []" "\<forall>c \<in> set ds. is_digit c" "digits_value ds = nat \<bar>m\<bar>"
    "Suc k \<le> length ds"
  using nat_digits_props [of "nat \<bar>m\<bar>"]
  by (auto simp: ds_def digits_value_zeros is_digit_def)

subsection \<open>Where a result comes from\<close>

lemma overflow_bound_threshold: "overflow_bound = b64_threshold"
  by (simp add: overflow_bound_def b64_threshold_eq)

lemma round_range_Fin: "round_range n w = Fin neg v \<Longrightarrow> is_b64 v"
proof -
  assume r: "round_range n w = Fin neg v"
  show ?thesis
  proof (cases "w \<le> underflow_bound")
    case True
    then show ?thesis using r by (auto simp: round_range_def split: if_splits)
  next
    case False
    then have "0 \<le> w" by (simp add: underflow_bound_def)
    moreover have "w < b64_threshold" "v = round_b64 w" using r False
      by (auto simp: round_range_def overflow_bound_threshold split: if_splits)
    ultimately show ?thesis using round_b64_is_b64 by simp
  qed
qed

lemma dg_strtod_round: "dg_strtod s = Some (f, r) \<Longrightarrow> \<exists>n w. f = round_range n w"
  by (auto simp: dg_strtod_def Let_def split: prod.splits if_splits)

lemma parse_inf_or_nan_nonfinite: "parse_inf_or_nan s = Some (f, r) \<Longrightarrow> f \<noteq> Fin neg v"
  by (auto simp: parse_inf_or_nan_def Let_def split: prod.splits if_splits)

lemma float_inner_parsed:
  "float_inner x s = Inr f \<Longrightarrow>
   \<exists>w. dg_strtod w = Some (f, []) \<or> (dg_strtod w = None \<and> parse_inf_or_nan w = Some (f, []))"
  by (auto simp: float_inner_def Let_def split: if_splits option.splits prod.splits list.splits)

lemma py_float_parsed:
  "py_float x = Inr f \<Longrightarrow>
   \<exists>w. dg_strtod w = Some (f, []) \<or> (dg_strtod w = None \<and> parse_inf_or_nan w = Some (f, []))"
  by (auto simp: py_float_def Let_def split: if_splits option.splits intro: float_inner_parsed)

subsection \<open>Decimal texts and their prefixes\<close>

lemma decimal_text_chars:
  assumes "\<forall>c \<in> set ip. is_digit c" "\<forall>c \<in> set fp. is_digit c"
  shows "\<forall>c \<in> set ((if neg then [45] else []) @ ip). c < 128 \<and> c \<noteq> 95"
    and "\<forall>c \<in> set ((if neg then [45] else []) @ ip @ 46 # fp). c < 128 \<and> c \<noteq> 95"
  using assms by (auto simp: is_digit_def)

lemma show_decimal_split:
  fixes m :: int
  obtains ip fp where "ip \<noteq> []" "\<forall>c \<in> set ip. is_digit c" "\<forall>c \<in> set fp. is_digit c" "length fp = k"
    "digits_value (ip @ fp) = nat \<bar>m\<bar>"
    "show_decimal m k = (if m < 0 then [45] else []) @ ip @ (if k = 0 then [] else 46 # fp)"
proof -
  define ds where "ds = replicate (Suc k - length (nat_digits (nat \<bar>m\<bar>))) (48::nat)
                          @ nat_digits (nat \<bar>m\<bar>)"
  define n where "n = length ds - k"
  have ds: "ds \<noteq> []" "\<forall>c \<in> set ds. is_digit c" "digits_value ds = nat \<bar>m\<bar>" "Suc k \<le> length ds"
    unfolding ds_def by (rule show_decimal_parts)+
  have "take n ds \<noteq> []" "\<forall>c \<in> set (take n ds). is_digit c"
    "\<forall>c \<in> set (drop n ds). is_digit c" "length (drop n ds) = k"
    using ds by (auto simp: n_def dest: in_set_takeD in_set_dropD)
  moreover have "digits_value (take n ds @ drop n ds) = nat \<bar>m\<bar>" using ds(3) by simp
  moreover have "show_decimal m k = (if m < 0 then [45] else []) @ take n ds @ (if k = 0 then [] else 46 # drop n ds)"
    by (simp add: show_decimal_def ds_def n_def Let_def)
  ultimately show ?thesis using that by blast
qed

lemma py_float_int_text:
  assumes "ip \<noteq> []" "\<forall>c \<in> set ip. is_digit c"
  shows "py_float ((if neg then [45] else []) @ ip) = Inr (round_range neg (decimal_value ip 0))"
proof -
  let ?w = "(if neg then [45] else []) @ ip"
  have "is_digit (hd ip)" "is_digit (last ip)" using assms by simp_all
  then have ends: "\<not> ascii_space (hd ?w)" "\<not> ascii_space (last ?w)"
    using assms(1) by (auto simp: ascii_space_def is_digit_def hd_append)
  have "?w \<noteq> []" using assms(1) by simp
  with ends dg_strtod_decimal(2) [OF assms(1,2) assms(2), of neg]
  have "float_inner ?w ?w = Inr (round_range neg (decimal_value ip 0))"
    by (intro float_inner_exact) simp_all
  with decimal_text_chars(1) [OF assms(2) assms(2), of neg] show ?thesis by (simp add: py_float_plain)
qed

lemma py_float_frac_text:
  assumes "ip \<noteq> []" "\<forall>c \<in> set ip. is_digit c" "\<forall>c \<in> set fp. is_digit c"
  shows "py_float ((if neg then [45] else []) @ ip @ 46 # fp)
           = Inr (round_range neg (decimal_value (ip @ fp) (- int (length fp))))"
proof -
  let ?w = "(if neg then [45] else []) @ ip @ 46 # fp"
  have "is_digit (hd ip)" using assms(1,2) by simp
  then have h: "\<not> ascii_space (hd ?w)"
    using assms(1) by (auto simp: ascii_space_def is_digit_def hd_append)
  have "last ?w = (if fp = [] then 46 else last fp)" by simp
  moreover have "fp \<noteq> [] \<Longrightarrow> is_digit (last fp)" using assms(3) by simp
  ultimately have l: "\<not> ascii_space (last ?w)" by (auto simp: ascii_space_def is_digit_def)
  have "float_inner ?w ?w = Inr (round_range neg (decimal_value (ip @ fp) (- int (length fp))))"
    using h l dg_strtod_decimal(1) [OF assms, of neg] by (intro float_inner_exact) simp_all
  with decimal_text_chars(2) [OF assms(2,3), of neg] show ?thesis by (simp add: py_float_plain)
qed

lemma py_float_show_prefix:
  assumes "(if m < 0 then 2 else 1) \<le> j" and "j \<le> length (show_decimal m k)"
  shows "\<exists>v. py_float (take j (show_decimal m k)) = Inr v"
proof -
  obtain ip fp where ip: "ip \<noteq> []" "\<forall>c \<in> set ip. is_digit c" and fp: "\<forall>c \<in> set fp. is_digit c"
    and sd: "show_decimal m k = (if m < 0 then [45] else []) @ ip @ (if k = 0 then [] else 46 # fp)"
    by (rule show_decimal_split)
  let ?sg = "if m < 0 then [45::nat] else []"
  define i where "i = j - length ?sg"
  have i1: "1 \<le> i" using assms(1) by (simp add: i_def split: if_splits)
  have tk: "take j (show_decimal m k) = ?sg @ take i (ip @ (if k = 0 then [] else 46 # fp))"
    using assms(1) by (simp add: sd i_def split: if_splits)
  show ?thesis
  proof (cases "i \<le> length ip")
    case True
    then have "take i (ip @ (if k = 0 then [] else 46 # fp)) = take i ip" by simp
    moreover have "take i ip \<noteq> []" "\<forall>c \<in> set (take i ip). is_digit c"
      using i1 ip by (auto dest: in_set_takeD)
    ultimately show ?thesis using py_float_int_text [of "take i ip" "m < 0"] tk by auto
  next
    case False
    then have k: "k \<noteq> 0" using assms(2) tk i1 by (auto simp: sd i_def split: if_splits)
    with False have "take i (ip @ (if k = 0 then [] else 46 # fp)) = ip @ 46 # take (i - length ip - 1) fp"
      by (simp add: take_Cons' )
    moreover have "\<forall>c \<in> set (take (i - length ip - 1) fp). is_digit c"
      using fp by (auto dest: in_set_takeD)
    ultimately show ?thesis using py_float_frac_text [OF ip, of "take (i - length ip - 1) fp" "m < 0"] tk by auto
  qed
qed


lemma py_float_b64:
  assumes "py_float x = Inr (Fin neg v)"
  shows "is_b64 v"
proof -
  obtain w where w: "dg_strtod w = Some (Fin neg v, []) \<or> parse_inf_or_nan w = Some (Fin neg v, [])"
    using py_float_parsed [OF assms] by blast
  have "\<not> parse_inf_or_nan w = Some (Fin neg v, [])"
    using parse_inf_or_nan_nonfinite [of w "Fin neg v" "[]" neg v] by blast
  with w have "dg_strtod w = Some (Fin neg v, [])" by blast
  then obtain n u where "Fin neg v = round_range n u" using dg_strtod_round by blast
  then show ?thesis using round_range_Fin by metis
qed

lemma number_char_not_space: "c = 44 \<or> c = 45 \<or> c = 46 \<or> is_digit c \<Longrightarrow> \<not> py_isspace c"
  by (auto simp: py_isspace_def is_digit_def)

lemma show_decimal_chars: "c \<in> set (show_decimal m k) \<Longrightarrow> c = 45 \<or> c = 46 \<or> is_digit c"
proof -
  assume c: "c \<in> set (show_decimal m k)"
  obtain ip fp where "\<forall>c \<in> set ip. is_digit c" "\<forall>c \<in> set fp. is_digit c"
    "show_decimal m k = (if m < 0 then [45] else []) @ ip @ (if k = 0 then [] else 46 # fp)"
    by (rule show_decimal_split)
  with c show ?thesis by (auto split: if_splits)
qed

text \<open>
  C37. Round trip with the sender's format: \<open>float()\<close> reads a reading
  printed with \<open>k\<close> fraction digits back as exactly that decimal, rounded to
  the nearest binary64 value (\<open>round_range\<close>).
\<close>

theorem py_float_show_decimal:
  "py_float (show_decimal m k) = Inr (round_range (m < 0) (of_int \<bar>m\<bar> / 10 ^ k))"
proof -
  obtain ip fp where ip: "ip \<noteq> []" "\<forall>c \<in> set ip. is_digit c" and fp: "\<forall>c \<in> set fp. is_digit c"
    and len: "length fp = k" and val: "digits_value (ip @ fp) = nat \<bar>m\<bar>"
    and sd: "show_decimal m k = (if m < 0 then [45] else []) @ ip @ (if k = 0 then [] else 46 # fp)"
    by (rule show_decimal_split)
  have v: "(of_nat (nat \<bar>m\<bar>) :: rat) = of_int \<bar>m\<bar>" by simp
  show ?thesis
  proof (cases "k = 0")
    case True
    with len val have "digits_value ip = nat \<bar>m\<bar>" by simp
    with True sd py_float_int_text [OF ip, of "m < 0"] v show ?thesis
      by (simp add: decimal_value_def)
  next
    case False
    with sd py_float_frac_text [OF ip fp, of "m < 0"] val len v show ?thesis
      by (simp add: decimal_value_def)
  qed
qed

theorem py_float_show_decimal_witness:
  "show_decimal 250 1 = lit ''25.0'' \<and> py_float (lit ''25.0'') = Inr (Fin False 25)"
proof -
  have s: "show_decimal 250 1 = lit ''25.0''"
    by (simp add: show_decimal_def nat_digits.simps)
  have "py_float (show_decimal 250 1) = Inr (round_range (250 < (0::int)) (of_int \<bar>250::int\<bar> / 10 ^ 1))"
    by (rule py_float_show_decimal)
  then have "py_float (lit ''25.0'') = Inr (Fin False 25)"
    unfolding s by (simp add: round_range_def overflow_bound_def underflow_bound_def)
  with s show ?thesis by simp
qed

subsection \<open>What float() accepts besides decimals\<close>

lemma ascii_lower_letter:
  "ascii_lower c = d \<Longrightarrow> 97 \<le> d \<Longrightarrow> d \<le> 122 \<Longrightarrow> c = d \<or> c + 32 = d"
  by (auto simp: ascii_lower_def split: if_splits)

lemma lower_word_chars:
  assumes "map ascii_lower w = lit v" "\<forall>d \<in> set (lit v). 97 \<le> d \<and> d \<le> 122"
  shows "\<forall>c \<in> set w. c < 128 \<and> c \<noteq> 95 \<and> \<not> is_digit c \<and> \<not> ascii_space c \<and> c \<noteq> 43 \<and> c \<noteq> 45
           \<and> c \<noteq> 46"
proof
  fix c assume "c \<in> set w"
  then have "ascii_lower c \<in> set (lit v)" using assms(1) by (metis image_eqI list.set_map)
  then have "97 \<le> ascii_lower c \<and> ascii_lower c \<le> 122" using assms(2) by blast
  then have "c = ascii_lower c \<or> c + 32 = ascii_lower c" using ascii_lower_letter by blast
  with \<open>97 \<le> ascii_lower c \<and> ascii_lower c \<le> 122\<close>
  show "c < 128 \<and> c \<noteq> 95 \<and> \<not> is_digit c \<and> \<not> ascii_space c \<and> c \<noteq> 43 \<and> c \<noteq> 45 \<and> c \<noteq> 46"
    by (auto simp: is_digit_def ascii_space_def)
qed

lemma dg_strtod_letter: "w \<noteq> [] \<Longrightarrow> \<not> is_digit (hd w) \<Longrightarrow> hd w \<notin> {43, 45, 46} \<Longrightarrow> dg_strtod w = None"
  by (cases w) (auto simp: dg_strtod_def take_sign_def)

text \<open>
  C39. \<open>float()\<close> accepts the spellings \<open>nan\<close>, \<open>inf\<close> and
  \<open>infinity\<close> in any mix of upper and lower case: such a field is a
  reading for \<open>read_arduino\<close>, not a conversion error.
\<close>

theorem py_float_nonfinite:
  assumes "map ascii_lower w \<in> {lit ''nan'', lit ''inf'', lit ''infinity''}"
  shows "py_float w = Inr (if map ascii_lower w = lit ''nan'' then NaN False else Inf False)"
proof -
  obtain v where v: "map ascii_lower w = lit v" "v \<in> {''nan'', ''inf'', ''infinity''}"
    using assms by blast
  have letters: "\<forall>d \<in> set (lit v). 97 \<le> d \<and> d \<le> 122"
    using v(2) by auto
  have chars: "\<forall>c \<in> set w. c < 128 \<and> c \<noteq> 95 \<and> \<not> is_digit c \<and> \<not> ascii_space c \<and> c \<noteq> 43 \<and> c \<noteq> 45
           \<and> c \<noteq> 46"
    by (rule lower_word_chars [OF v(1) letters])
  have ne: "w \<noteq> []" using v by auto
  have sign: "take_sign w = (False, w)"
    using ne chars by (cases w) (auto simp: take_sign_def)
  have len: "length w = length v" using v(1) by (metis length_lit length_map)
  have pin: "parse_inf_or_nan w = Some (if map ascii_lower w = lit ''nan'' then NaN False else Inf False, [])"
    using v len sign by (auto simp: parse_inf_or_nan_def ci_prefix_def)
  have "dg_strtod w = None"
    using ne chars by (intro dg_strtod_letter) auto
  with pin have "float_inner w w = Inr (if map ascii_lower w = lit ''nan'' then NaN False else Inf False)"
    using ne chars by (intro float_inner_exact) auto
  then show ?thesis
    using chars by (simp add: py_float_plain)
qed

theorem py_float_nonfinite_witness: "py_float (lit ''NaN'') = Inr (NaN False)"
proof -
  have "map ascii_lower (lit ''NaN'') \<in> {lit ''nan'', lit ''inf'', lit ''infinity''}"
    by (simp add: ascii_lower_def)
  from py_float_nonfinite [OF this] show ?thesis by (simp add: ascii_lower_def)
qed

text \<open>
  Bounds: every finite value \<open>float()\<close> returns is a binary64 value: zero,
  or between the smallest subnormal \<open>2^-1074\<close> and the largest finite
  value \<open>max_b64\<close>; an exponent out of range gives \<open>0.0\<close> or \<open>inf\<close>,
  never an error.
\<close>

theorem py_float_finite_range:
  assumes "py_float x = Inr (Fin neg v)"
  shows "is_b64 v \<and> v \<le> max_b64 \<and> (v = 0 \<or> 2 powi (-1074) \<le> v)"
proof -
  have b: "is_b64 v" using py_float_b64 [OF assms] .
  then show ?thesis using b64_le_max [OF b] b64_min [OF b] by blast
qed

theorem py_float_finite_range_witness:
  "py_float (lit ''1e-400'') = Inr (Fin False 0) \<and>
   py_float (lit ''25.0'') = Inr (Fin False 25) \<and> is_b64 25 \<and> (25::rat) \<le> max_b64"
proof -
  have a: "py_float (lit ''1e-400'') = Inr (Fin False 0)" by (simp add: model_defs)
  have b: "py_float (lit ''25.0'') = Inr (Fin False 25)" by (simp add: model_defs)
  from py_float_finite_range [OF b] have "is_b64 25 \<and> (25::rat) \<le> max_b64" by simp
  with a b show ?thesis by simp
qed

text \<open>
  C21. Refinement of IEEE 754 round-to-nearest: for a decimal inside the range
  of the format, the conversion at the end of \<open>_Py_dg_strtod\<close>
  (\<open>round_range\<close>) returns a finite float whose magnitude is a closest
  binary64 value to the decimal, in the sense of \<open>is_closest\<close> of the
  IEEE development of the Archive of Formal Proofs.
\<close>

theorem round_range_closest:
  assumes "underflow_bound < w" and "w < overflow_bound"
  shows "\<exists>v. round_range neg w = Fin neg v \<and> is_closest {x. is_b64 x} w v"
proof -
  have "0 \<le> w" using assms(1) by (simp add: underflow_bound_def)
  moreover have "w < b64_threshold" using assms(2) by (simp add: overflow_bound_threshold)
  ultimately have "is_closest {x. is_b64 x} w (round_b64 w)" by (rule round_b64_closest_set)
  moreover have "round_range neg w = Fin neg (round_b64 w)" using assms by (simp add: round_range_def)
  ultimately show ?thesis by blast
qed

theorem round_range_closest_witness:
  "underflow_bound < 1 / 10 \<and> 1 / 10 < overflow_bound
   \<and> (\<exists>v. round_range False (1 / 10) = Fin False v \<and> is_closest {x. is_b64 x} (1 / 10) v)"
proof -
  have b: "underflow_bound < 1 / 10" "1 / 10 < overflow_bound"
    by (simp_all add: underflow_bound_def overflow_bound_def)
  then show ?thesis using round_range_closest [OF b] by blast
qed

end
