(* ===== verification/SensorData.thy ===== *)
theory SensorData
  imports PyFloat
begin

text \<open>
  The shared record of \<open>src/app.py\<close>: the module-level dictionary
  \<open>sensor_data\<close> (line 54) with its five keys, written by the background
  thread \<open>read_arduino\<close> one key at a time (lines 71 to 82) and read by the
  \<open>/data\<close> route (line 112). Its values are Python objects of several types:
  the placeholders are the \<open>int\<close> 0 and the \<open>str\<close> \<open>'N/A'\<close>, a reading
  is a \<open>float\<close>, and a label is whatever element type scikit-learn's
  \<open>predict\<close> returns for the label column (a \<open>str\<close> for text labels, a
  NumPy \<open>int64\<close> or \<open>bool_\<close> for integer or boolean labels; NumPy's
  \<open>float64\<close> is a subclass of \<open>float\<close> and is \<open>PyFloat\<close> here).
\<close>

datatype pyval = PyInt int | PyFloat pyfloat | PyStr pystr | NpInt64 int | NpBool bool

record sensor_data =
  temp :: pyval
  hum :: pyval
  soil :: pyval
  crop :: pyval
  advice :: pyval

definition initial_sensor_data :: sensor_data where
  "initial_sensor_data =
     \<lparr>temp = PyInt 0, hum = PyInt 0, soil = PyInt 0,
      crop = PyStr (lit ''N/A''), advice = PyStr (lit ''N/A'')\<rparr>"

text \<open>
  The keys of the dictionary, and one item assignment
  \<open>sensor_data[k] = v\<close>. A run of assignments is a list of writes applied in
  order; the thread's iteration produces such a list.
\<close>

datatype field = FTemp | FHum | FSoil | FCrop | FAdvice

fun set_field :: "sensor_data \<Rightarrow> field \<times> pyval \<Rightarrow> sensor_data" where
  "set_field d (FTemp, v) = d\<lparr>temp := v\<rparr>"
| "set_field d (FHum, v) = d\<lparr>hum := v\<rparr>"
| "set_field d (FSoil, v) = d\<lparr>soil := v\<rparr>"
| "set_field d (FCrop, v) = d\<lparr>crop := v\<rparr>"
| "set_field d (FAdvice, v) = d\<lparr>advice := v\<rparr>"

definition apply_writes :: "sensor_data \<Rightarrow> (field \<times> pyval) list \<Rightarrow> sensor_data" where
  "apply_writes d ws = foldl set_field d ws"

fun get_field :: "sensor_data \<Rightarrow> field \<Rightarrow> pyval" where
  "get_field d FTemp = temp d"
| "get_field d FHum = hum d"
| "get_field d FSoil = soil d"
| "get_field d FCrop = crop d"
| "get_field d FAdvice = advice d"

text \<open>The value of the last write to a key in a list of writes.\<close>

definition last_write :: "(field \<times> pyval) list \<Rightarrow> field \<Rightarrow> pyval option" where
  "last_write ws f = (case filter (\<lambda>w. fst w = f) ws of [] \<Rightarrow> None | xs \<Rightarrow> Some (snd (last xs)))"

lemmas sensor_defs [model_defs] = initial_sensor_data_def apply_writes_def

lemma apply_writes_simps [simp]:
  "apply_writes d [] = d"
  "apply_writes d (w # ws) = apply_writes (set_field d w) ws"
  "apply_writes d (ws @ vs) = apply_writes (apply_writes d ws) vs"
  by (simp_all add: apply_writes_def)

lemma get_set_field [simp]:
  "get_field (set_field d (f, v)) g = (if f = g then v else get_field d g)"
  by (cases f; cases g) simp_all

lemma sensor_data_eq_fields:
  "(d = d') \<longleftrightarrow> (\<forall>f. get_field d f = get_field d' f)"
proof
  assume "\<forall>f. get_field d f = get_field d' f"
  then have "temp d = temp d'" "hum d = hum d'" "soil d = soil d'" "crop d = crop d'"
    "advice d = advice d'" "sensor_data.more d = sensor_data.more d'"
    using get_field.simps by (metis, metis, metis, metis, metis, simp)
  then show "d = d'" by simp
qed simp

lemma get_apply_writes:
  "get_field (apply_writes d ws) f = (case last_write ws f of None \<Rightarrow> get_field d f | Some v \<Rightarrow> v)"
proof (induction ws rule: rev_induct)
  case Nil
  then show ?case by (simp add: last_write_def)
next
  case (snoc w ws)
  obtain g v where w: "w = (g, v)" by fastforce
  show ?case
    using snoc by (cases "g = f") (auto simp: w last_write_def split: list.splits)
qed

lemma apply_writes_labels:
  "\<forall>w \<in> set ps. fst w = FCrop \<or> fst w = FAdvice \<Longrightarrow>
   temp (apply_writes d ps) = temp d \<and> hum (apply_writes d ps) = hum d \<and> soil (apply_writes d ps) = soil d"
proof (induction ps arbitrary: d)
  case Nil
  then show ?case by simp
next
  case (Cons w ps)
  obtain f v where w: "w = (f, v)" by fastforce
  with Cons.prems have "f = FCrop \<or> f = FAdvice" by simp
  with Cons w show ?case by auto
qed

end
