(* ===== verification/Utf8.thy ===== *)
theory Utf8
  imports Prelude
begin

text \<open>
  \<open>bytes.decode('utf-8')\<close> of \<open>src/app.py\<close> line 64, with Python's
  default \<open>strict\<close> error handler: a byte string decodes to the code points
  it encodes, or the call raises \<open>UnicodeDecodeError\<close> (here \<open>None\<close>).
  The accepted byte sequences are those of the Unicode standard's table of
  well-formed UTF-8 (no overlong forms, no surrogates, nothing above U+10FFFF),
  which is what CPython's decoder accepts. \<open>utf8_encode\<close> is the encoding
  a well-behaved sender produces; it states the round trip.
\<close>

definition in_range :: "nat \<Rightarrow> nat \<Rightarrow> byte \<Rightarrow> bool" where
  "in_range lo hi b \<longleftrightarrow> lo \<le> unat b \<and> unat b \<le> hi"

text \<open>Bounds on the second byte of a three- and four-byte sequence, by lead byte.\<close>

definition second_lo :: "byte \<Rightarrow> nat" where
  "second_lo b0 = (if unat b0 = 0xE0 then 0xA0 else if unat b0 = 0xF0 then 0x90 else 0x80)"

definition second_hi :: "byte \<Rightarrow> nat" where
  "second_hi b0 = (if unat b0 = 0xED then 0x9F else if unat b0 = 0xF4 then 0x8F else 0xBF)"

text \<open>The code point of a two-, three- and four-byte sequence.\<close>

definition cp2 :: "byte \<Rightarrow> byte \<Rightarrow> codepoint" where
  "cp2 b0 b1 = (unat b0 - 0xC0) * 64 + (unat b1 - 0x80)"

definition cp3 :: "byte \<Rightarrow> byte \<Rightarrow> byte \<Rightarrow> codepoint" where
  "cp3 b0 b1 b2 = ((unat b0 - 0xE0) * 64 + (unat b1 - 0x80)) * 64 + (unat b2 - 0x80)"

definition cp4 :: "byte \<Rightarrow> byte \<Rightarrow> byte \<Rightarrow> byte \<Rightarrow> codepoint" where
  "cp4 b0 b1 b2 b3 =
     (((unat b0 - 0xF0) * 64 + (unat b1 - 0x80)) * 64 + (unat b2 - 0x80)) * 64 + (unat b3 - 0x80)"

definition utf8_char :: "byte list \<Rightarrow> (codepoint \<times> byte list) option" where
  "utf8_char bs = (case bs of
      [] \<Rightarrow> None
    | b0 # r0 \<Rightarrow>
        if unat b0 < 0x80 then Some (unat b0, r0)
        else if in_range 0xC2 0xDF b0 then
          (case r0 of
             b1 # r1 \<Rightarrow>
               if in_range 0x80 0xBF b1
               then Some (cp2 b0 b1, r1) else None
           | _ \<Rightarrow> None)
        else if in_range 0xE0 0xEF b0 then
          (case r0 of
             b1 # b2 # r2 \<Rightarrow>
               if in_range (second_lo b0) (second_hi b0) b1 \<and> in_range 0x80 0xBF b2
               then Some (cp3 b0 b1 b2, r2)
               else None
           | _ \<Rightarrow> None)
        else if in_range 0xF0 0xF4 b0 then
          (case r0 of
             b1 # b2 # b3 # r3 \<Rightarrow>
               if in_range (second_lo b0) (second_hi b0) b1 \<and> in_range 0x80 0xBF b2
                  \<and> in_range 0x80 0xBF b3
               then Some (cp4 b0 b1 b2 b3, r3)
               else None
           | _ \<Rightarrow> None)
        else None)"

function utf8_decode :: "byte list \<Rightarrow> pystr option" where
  "utf8_decode bs =
     (if bs = [] then Some []
      else case utf8_char bs of
             None \<Rightarrow> None
           | Some (c, rest) \<Rightarrow> map_option (Cons c) (utf8_decode rest))"
  by pat_completeness auto
termination
  by (relation "measure length") (auto simp: utf8_char_def split: list.splits if_splits)

declare utf8_decode.simps [simp del]

definition scalar_value :: "codepoint \<Rightarrow> bool" where
  "scalar_value c \<longleftrightarrow> c < 0x110000 \<and> \<not> (0xD800 \<le> c \<and> c \<le> 0xDFFF)"

text \<open>\<open>byte_of n\<close> is the byte with value \<open>n\<close> (for \<open>n < 256\<close>).\<close>

definition byte_of :: "nat \<Rightarrow> byte" where
  "byte_of n = word_of_nat n"

definition utf8_encode_char :: "codepoint \<Rightarrow> byte list" where
  "utf8_encode_char c =
     (if c < 0x80 then [byte_of c]
      else if c < 0x800 then [byte_of (0xC0 + c div 64), byte_of (0x80 + c mod 64)]
      else if c < 0x10000 then
        [byte_of (0xE0 + c div 4096), byte_of (0x80 + c div 64 mod 64), byte_of (0x80 + c mod 64)]
      else
        [byte_of (0xF0 + c div 262144), byte_of (0x80 + c div 4096 mod 64),
         byte_of (0x80 + c div 64 mod 64), byte_of (0x80 + c mod 64)])"

definition utf8_encode :: "pystr \<Rightarrow> byte list" where
  "utf8_encode s = concat (map utf8_encode_char s)"

text \<open>The bytes that occur in no UTF-8 encoding.\<close>

definition never_utf8 :: "byte \<Rightarrow> bool" where
  "never_utf8 b \<longleftrightarrow> unat b = 0xC0 \<or> unat b = 0xC1 \<or> 0xF5 \<le> unat b"

lemmas utf8_defs [model_defs] = utf8_char_def cp2_def cp3_def cp4_def in_range_def second_lo_def second_hi_def
  utf8_encode_def utf8_encode_char_def byte_of_def never_utf8_def scalar_value_def

subsection \<open>Decoding one character\<close>

lemma utf8_decode_Nil [simp]: "utf8_decode [] = Some []"
  by (simp add: utf8_decode.simps)

lemma utf8_decode_step:
  "utf8_char bs = Some (c, rest) \<Longrightarrow> utf8_decode bs = map_option (Cons c) (utf8_decode rest)"
  by (subst utf8_decode.simps) (auto simp: utf8_char_def)

lemma utf8_decode_fail:
  "bs \<noteq> [] \<Longrightarrow> utf8_char bs = None \<Longrightarrow> utf8_decode bs = None"
  by (subst utf8_decode.simps) simp

lemma unat_byte_of [simp]: "n < 256 \<Longrightarrow> unat (byte_of n) = n"
  by (simp add: byte_of_def unat_of_nat)

lemma div64_bounds:
  fixes c :: nat
  shows "c < n * 64 \<Longrightarrow> c div 64 < n" and "m * 64 \<le> c \<Longrightarrow> m \<le> c div 64"
  by (simp_all add: div_less_iff_less_mult less_eq_div_iff_mult_less_eq)

lemma digits64_2: "(c::nat) = c div 64 * 64 + c mod 64"
  by simp

lemma digits64_3: "(c::nat) = (c div 4096 * 64 + c div 64 mod 64) * 64 + c mod 64"
proof -
  have "c div 4096 = c div 64 div 64" by (simp add: div_mult2_eq)
  then show ?thesis by simp
qed

lemma digits64_4:
  "(c::nat) = ((c div 262144 * 64 + c div 4096 mod 64) * 64 + c div 64 mod 64) * 64 + c mod 64"
proof -
  have "c div 262144 = c div 4096 div 64" "c div 4096 = c div 64 div 64"
    by (simp_all add: div_mult2_eq)
  then show ?thesis by simp
qed

lemma utf8_char_encode_1:
  "c < 0x80 \<Longrightarrow> utf8_char (utf8_encode_char c @ rest) = Some (c, rest)"
  by (simp add: utf8_encode_char_def utf8_char_def)

lemma utf8_char_encode_2:
  assumes "0x80 \<le> c" "c < 0x800"
  shows "utf8_char (utf8_encode_char c @ rest) = Some (c, rest)"
proof -
  define q where "q = c div 64"
  define r where "r = c mod 64"
  have b: "2 \<le> q" "q < 32" "r < 64"
    using assms div64_bounds [of c] by (simp_all add: q_def r_def)
  have c: "c = q * 64 + r"
    unfolding q_def r_def by (rule digits64_2)
  have enc: "utf8_encode_char c = [byte_of (0xC0 + q), byte_of (0x80 + r)]"
    using assms by (simp add: utf8_encode_char_def q_def r_def)
  have "utf8_char ([byte_of (0xC0 + q), byte_of (0x80 + r)] @ rest) = Some (q * 64 + r, rest)"
    using b by (simp add: utf8_char_def in_range_def cp2_def)
  then show ?thesis by (simp only: enc flip: c)
qed

lemma utf8_char_encode_3:
  assumes "0x800 \<le> c" "c < 0x10000" "\<not> (0xD800 \<le> c \<and> c \<le> 0xDFFF)"
  shows "utf8_char (utf8_encode_char c @ rest) = Some (c, rest)"
proof -
  define a where "a = c div 4096"
  define m where "m = c div 64 mod 64"
  define r where "r = c mod 64"
  have c: "c = (a * 64 + m) * 64 + r"
    unfolding a_def m_def r_def by (rule digits64_3)
  have b: "a < 16" "m < 64" "r < 64"
    using assms(2) by (simp_all add: a_def m_def r_def div_less_iff_less_mult)
  have lo: "a = 0 \<Longrightarrow> 32 \<le> m" and hi: "a = 13 \<Longrightarrow> m < 32"
    using assms c b by auto
  have enc: "utf8_encode_char c = [byte_of (0xE0 + a), byte_of (0x80 + m), byte_of (0x80 + r)]"
    using assms by (simp add: utf8_encode_char_def a_def m_def r_def)
  have "utf8_char ([byte_of (0xE0 + a), byte_of (0x80 + m), byte_of (0x80 + r)] @ rest)
          = Some ((a * 64 + m) * 64 + r, rest)"
    using b lo hi by (auto simp: utf8_char_def in_range_def second_lo_def second_hi_def cp3_def)
  then show ?thesis by (simp only: enc flip: c)
qed

lemma utf8_char_encode_4:
  assumes "0x10000 \<le> c" "c < 0x110000"
  shows "utf8_char (utf8_encode_char c @ rest) = Some (c, rest)"
proof -
  define a where "a = c div 262144"
  define m where "m = c div 4096 mod 64"
  define n where "n = c div 64 mod 64"
  define r where "r = c mod 64"
  have c: "c = ((a * 64 + m) * 64 + n) * 64 + r"
    unfolding a_def m_def n_def r_def by (rule digits64_4)
  have b: "a < 5" "m < 64" "n < 64" "r < 64"
    using assms(2) by (simp_all add: a_def m_def n_def r_def div_less_iff_less_mult)
  have lo: "a = 0 \<longrightarrow> 16 \<le> m" and hi: "a = 4 \<longrightarrow> m < 16"
    using assms c b by auto
  have enc: "utf8_encode_char c =
      [byte_of (0xF0 + a), byte_of (0x80 + m), byte_of (0x80 + n), byte_of (0x80 + r)]"
    using assms by (simp add: utf8_encode_char_def a_def m_def n_def r_def)
  have "utf8_char ([byte_of (0xF0 + a), byte_of (0x80 + m), byte_of (0x80 + n),
                     byte_of (0x80 + r)] @ rest)
          = Some (((a * 64 + m) * 64 + n) * 64 + r, rest)"
    using b lo hi by (auto simp: utf8_char_def in_range_def second_lo_def second_hi_def cp4_def)
  then show ?thesis by (simp only: enc flip: c)
qed

lemma utf8_char_encode:
  "scalar_value c \<Longrightarrow> utf8_char (utf8_encode_char c @ rest) = Some (c, rest)"
  unfolding scalar_value_def
  by (metis linorder_not_le utf8_char_encode_1 utf8_char_encode_2 utf8_char_encode_3
      utf8_char_encode_4)

subsection \<open>Every decoded character is the encoding of a scalar value\<close>

lemma byte_of_unat [simp]: "byte_of (unat b) = b"
  by (simp add: byte_of_def)

lemma unat_byte_lt: "unat (b :: byte) < 256"
  using unsigned_less [of b] by simp

lemma utf8_encode_inv_1:
  "unat b0 < 0x80 \<Longrightarrow> scalar_value (unat b0) \<and> utf8_encode_char (unat b0) = [b0]"
  by (simp add: scalar_value_def utf8_encode_char_def)

lemma utf8_encode_inv_2:
  assumes "in_range 0xC2 0xDF b0" "in_range 0x80 0xBF b1"
  defines "c \<equiv> cp2 b0 b1"
  shows "scalar_value c \<and> utf8_encode_char c = [b0, b1]"
proof -
  define x where "x = unat b0 - 0xC0"
  define y where "y = unat b1 - 0x80"
  have xy: "2 \<le> x" "x < 32" "y < 64" "unat b0 = 0xC0 + x" "unat b1 = 0x80 + y"
    using assms(1,2) by (auto simp: x_def y_def in_range_def)
  have c: "c = x * 64 + y"
    by (simp add: c_def x_def y_def cp2_def)
  have "c div 64 = x" "c mod 64 = y" "0x80 \<le> c" "c < 0x800"
    using xy(1-3) by (simp_all add: c)
  then have "scalar_value c \<and> utf8_encode_char c = [byte_of (0xC0 + x), byte_of (0x80 + y)]"
    by (simp add: scalar_value_def utf8_encode_char_def)
  then show ?thesis
    by (metis byte_of_unat xy(4,5))
qed

lemma div_mod_64 [simp]:
  "(y::nat) < 64 \<Longrightarrow> (x * 64 + y) div 64 = x"
  "(y::nat) < 64 \<Longrightarrow> (x * 64 + y) mod 64 = y"
  by simp_all

lemma utf8_encode_inv_3:
  assumes "in_range 0xE0 0xEF b0" "in_range (second_lo b0) (second_hi b0) b1"
    "in_range 0x80 0xBF b2"
  defines "c \<equiv> cp3 b0 b1 b2"
  shows "scalar_value c \<and> utf8_encode_char c = [b0, b1, b2]"
proof -
  define x where "x = unat b0 - 0xE0"
  define y where "y = unat b1 - 0x80"
  define z where "z = unat b2 - 0x80"
  have xyz: "x < 16" "y < 64" "z < 64" "x = 0 \<longrightarrow> 32 \<le> y" "x = 13 \<longrightarrow> y < 32"
    "unat b0 = 0xE0 + x" "unat b1 = 0x80 + y" "unat b2 = 0x80 + z"
    using assms(1-3)
    by (auto simp: x_def y_def z_def in_range_def second_lo_def second_hi_def split: if_splits)
  have c: "c = (x * 64 + y) * 64 + z"
    by (simp add: c_def x_def y_def z_def cp3_def)
  have d1: "c div 64 = x * 64 + y" "c mod 64 = z"
    using xyz(3) unfolding c by (simp_all only: div_mod_64)
  have d: "c div 64 mod 64 = y" "c mod 64 = z" "c div 4096 = x"
    using d1 xyz(2) by (simp_all add: div_mult2_eq [of c 64 64, simplified])
  have "x \<le> 12 \<or> x = 13 \<or> 14 \<le> x" by arith
  then have "c < 0xD800 \<or> 0xE000 \<le> c"
    using xyz(2,3,5) unfolding c by (elim disjE) simp_all
  moreover have "0x800 \<le> c" "c < 0x10000"
    using xyz(1-4) unfolding c by auto
  ultimately have "scalar_value c" "0x800 \<le> c" "c < 0x10000"
    by (auto simp: scalar_value_def)
  with d have "scalar_value c \<and>
      utf8_encode_char c = [byte_of (0xE0 + x), byte_of (0x80 + y), byte_of (0x80 + z)]"
    by (simp add: utf8_encode_char_def)
  then show ?thesis
    by (metis byte_of_unat xyz(6-8))
qed

lemma utf8_encode_inv_4:
  assumes "in_range 0xF0 0xF4 b0" "in_range (second_lo b0) (second_hi b0) b1"
    "in_range 0x80 0xBF b2" "in_range 0x80 0xBF b3"
  defines "c \<equiv> cp4 b0 b1 b2 b3"
  shows "scalar_value c \<and> utf8_encode_char c = [b0, b1, b2, b3]"
proof -
  define x where "x = unat b0 - 0xF0"
  define y where "y = unat b1 - 0x80"
  define z where "z = unat b2 - 0x80"
  define w where "w = unat b3 - 0x80"
  have xyz: "x < 5" "y < 64" "z < 64" "w < 64" "x = 0 \<longrightarrow> 16 \<le> y" "x = 4 \<longrightarrow> y < 16"
    "unat b0 = 0xF0 + x" "unat b1 = 0x80 + y" "unat b2 = 0x80 + z" "unat b3 = 0x80 + w"
    using assms(1-4)
    by (auto simp: x_def y_def z_def w_def in_range_def second_lo_def second_hi_def
        split: if_splits)
  have c: "c = ((x * 64 + y) * 64 + z) * 64 + w"
    by (simp add: c_def x_def y_def z_def w_def cp4_def)
  have d1: "c div 64 = (x * 64 + y) * 64 + z" "c mod 64 = w"
    using xyz(4) unfolding c by (simp_all only: div_mod_64)
  have d2: "c div 4096 = x * 64 + y"
    using d1 xyz(3) by (simp add: div_mult2_eq [of c 64 64, simplified])
  have d3: "c div 262144 = x"
    using d2 xyz(2) by (simp add: div_mult2_eq [of c 4096 64, simplified])
  have d: "c div 64 mod 64 = z" "c mod 64 = w" "c div 4096 mod 64 = y" "c div 262144 = x"
    using xyz(2,3) by (simp_all only: d1 d2 d3 div_mod_64)
  have "0x10000 \<le> c" "c < 0x110000"
    using xyz(1-6) unfolding c by auto
  with d have "scalar_value c \<and> utf8_encode_char c =
      [byte_of (0xF0 + x), byte_of (0x80 + y), byte_of (0x80 + z), byte_of (0x80 + w)]"
    by (simp add: scalar_value_def utf8_encode_char_def)
  then show ?thesis
    by (metis byte_of_unat xyz(7-10))
qed

lemmas utf8_encode_inv =
  utf8_encode_inv_1 [THEN conjunct1] utf8_encode_inv_1 [THEN conjunct2]
  utf8_encode_inv_2 [THEN conjunct1] utf8_encode_inv_2 [THEN conjunct2]
  utf8_encode_inv_3 [THEN conjunct1] utf8_encode_inv_3 [THEN conjunct2]
  utf8_encode_inv_4 [THEN conjunct1] utf8_encode_inv_4 [THEN conjunct2]

lemma utf8_char_Some:
  "utf8_char bs = Some (c, rest) \<Longrightarrow> scalar_value c \<and> bs = utf8_encode_char c @ rest"
  unfolding utf8_char_def
  by (auto simp: utf8_encode_inv split: list.splits if_splits)

subsection \<open>Round trips\<close>

lemma utf8_encode_simps [simp]:
  "utf8_encode [] = []"
  "utf8_encode (c # s) = utf8_encode_char c @ utf8_encode s"
  by (simp_all add: utf8_encode_def)

lemma utf8_decode_encode_append:
  "\<forall>c \<in> set s. scalar_value c \<Longrightarrow>
     utf8_decode (utf8_encode s @ ys) = map_option ((@) s) (utf8_decode ys)"
proof (induction s)
  case Nil
  then show ?case by (simp add: option.map_ident)
next
  case (Cons c s)
  then have "utf8_char (utf8_encode_char c @ utf8_encode s @ ys) = Some (c, utf8_encode s @ ys)"
    by (simp add: utf8_char_encode)
  then show ?case
    using Cons by (simp add: utf8_decode_step option.map_comp comp_def)
qed

lemma utf8_decode_Some:
  "utf8_decode bs = Some s \<Longrightarrow> utf8_encode s = bs \<and> (\<forall>c \<in> set s. scalar_value c)"
proof (induction bs arbitrary: s rule: utf8_decode.induct)
  case (1 bs)
  show ?case
  proof (cases "bs = []")
    case True
    with "1.prems" show ?thesis by simp
  next
    case False
    then obtain c rest where ch: "utf8_char bs = Some (c, rest)"
      using "1.prems" utf8_decode_fail by fastforce
    with "1.prems" obtain s' where s: "s = c # s'" and rec: "utf8_decode rest = Some s'"
      by (auto simp: utf8_decode_step)
    from "1.IH" [OF False ch refl rec] utf8_char_Some [OF ch] show ?thesis
      by (simp add: s)
  qed
qed

lemma utf8_encode_no_newline:
  "\<forall>c \<in> set l. c < 0x80 \<and> c \<noteq> 10 \<Longrightarrow> 10 \<notin> set (utf8_encode l)"
proof (induction l)
  case (Cons c l)
  have "byte_of c \<noteq> 10"
  proof
    assume "byte_of c = 10"
    then have "unat (byte_of c) = 10" by simp
    with Cons.prems show False by simp
  qed
  with Cons show ?case by (simp add: utf8_encode_char_def)
qed simp

lemma utf8_decode_ascii:
  "\<forall>b \<in> set bs. unat b < 0x80 \<Longrightarrow> utf8_decode bs = Some (map unat bs)"
proof (induction bs)
  case Nil
  then show ?case by simp
next
  case (Cons b bs)
  then have "utf8_char (b # bs) = Some (unat b, bs)"
    by (simp add: utf8_char_def)
  with Cons show ?case by (simp add: utf8_decode_step)
qed

subsection \<open>Bytes that never occur in UTF-8\<close>

lemma utf8_encode_char_bytes:
  assumes "scalar_value c"
  shows "\<forall>b \<in> set (utf8_encode_char c). \<not> never_utf8 b"
proof -
  have "utf8_char (utf8_encode_char c @ []) = Some (c, [])"
    using assms by (rule utf8_char_encode)
  then show ?thesis
    unfolding utf8_char_def never_utf8_def
    by (auto simp: in_range_def second_lo_def second_hi_def split: list.splits if_splits)
qed

lemma utf8_encode_bytes:
  "\<forall>c \<in> set s. scalar_value c \<Longrightarrow> \<forall>b \<in> set (utf8_encode s). \<not> never_utf8 b"
  by (induction s) (auto dest: utf8_encode_char_bytes)

subsection \<open>Properties of the decoder\<close>

text \<open>
  C36. The decoder accepts exactly the UTF-8 encodings of strings of Unicode
  scalar values, and returns the string encoded: decoding is the inverse of
  encoding in both directions.
\<close>

theorem utf8_decode_iff:
  "utf8_decode bs = Some s \<longleftrightarrow> utf8_encode s = bs \<and> (\<forall>c \<in> set s. scalar_value c)"
proof
  assume "utf8_decode bs = Some s"
  then show "utf8_encode s = bs \<and> (\<forall>c \<in> set s. scalar_value c)"
    by (rule utf8_decode_Some)
next
  assume "utf8_encode s = bs \<and> (\<forall>c \<in> set s. scalar_value c)"
  then show "utf8_decode bs = Some s"
    using utf8_decode_encode_append [of s "[]"] by (simp add: option.map_ident)
qed

theorem utf8_decode_iff_witness:
  "utf8_decode [0x32, 0x35, 0xC2, 0xB0, 0x43] = Some [50, 53, 176, 67]"
proof -
  have "utf8_encode [50, 53, 176, 67] = [0x32, 0x35, 0xC2, 0xB0, 0x43] \<and>
        (\<forall>c \<in> set [50, 53, 176, 67]. scalar_value c)"
    by (simp add: utf8_encode_char_def byte_of_def scalar_value_def)
  then show ?thesis using utf8_decode_iff by blast
qed

text \<open>
  A byte that is no part of any UTF-8 encoding (0xC0, 0xC1, 0xF5 to
  0xFF) anywhere in the input makes \<open>decode('utf-8')\<close> raise
  \<open>UnicodeDecodeError\<close>.
\<close>

theorem utf8_decode_rejects:
  assumes "never_utf8 b"
  shows "utf8_decode (xs @ b # ys) = None"
proof (rule ccontr)
  assume "utf8_decode (xs @ b # ys) \<noteq> None"
  then obtain s where "utf8_decode (xs @ b # ys) = Some s" by blast
  then have "utf8_encode s = xs @ b # ys" "\<forall>c \<in> set s. scalar_value c"
    using utf8_decode_Some by blast+
  then have "\<not> never_utf8 b"
    using utf8_encode_bytes by fastforce
  with assms show False by contradiction
qed

theorem utf8_decode_rejects_witness:
  "never_utf8 0xFF \<and> utf8_decode [0x32, 0x35, 0xFF] = None"
proof -
  have "never_utf8 0xFF" by (simp add: never_utf8_def)
  moreover have "utf8_decode ([0x32, 0x35] @ 0xFF # []) = None"
    using utf8_decode_rejects [OF calculation] .
  ultimately show ?thesis by simp
qed

end
