(* ===== verification/Query.thy ===== *)
theory Query
  imports SensorData Utf8
begin

text \<open>
  The query surface of \<open>src/app.py\<close>: the route \<open>/data\<close> (lines 109 to
  112) returns \<open>jsonify(sensor_data)\<close>. Flask's default JSON provider
  serialises the dictionary with \<open>json.dumps\<close> with sorted keys,
  \<open>ensure_ascii\<close> and \<open>allow_nan\<close> (the defaults), indented by two
  spaces when the application runs in debug mode (as \<open>app.run(debug=True)\<close>
  does) and compact otherwise, and appends a newline. A value \<open>json.dumps\<close>
  cannot serialise (a NumPy \<open>int64\<close> or \<open>bool_\<close>, which is what
  \<open>predict\<close> returns for a label column of integers or booleans) raises
  \<open>TypeError\<close> and Flask answers \<open>500 Internal Server Error\<close>.

  \<open>json_of_pyval\<close> is the encoder's type dispatch, \<open>json_text\<close> the
  text it produces, \<open>escape_char\<close> the string escaping of
  \<open>py_encode_basestring_ascii\<close>. A finite float is written by
  \<open>float.__repr__\<close>, the shortest text that reads back as the same binary64
  value; the model does not carry binary64 values, so that text is a
  parameter \<open>fr\<close> of \<open>json_text\<close>. \<open>json_unescape\<close> is the reading
  side, the string scanner of Python's \<open>json\<close> module, as a client of the
  route would run it.
\<close>

datatype json = JInt int | JFloat pyfloat | JString pystr | JObject "(pystr \<times> json) list"

definition json_type_error :: "pystr \<Rightarrow> exn" where
  "json_type_error t = TypeError (lit ''Object of type '' @ t @ lit '' is not JSON serializable'')"

fun json_of_pyval :: "pyval \<Rightarrow> exn + json" where
  "json_of_pyval (PyInt i) = Inr (JInt i)"
| "json_of_pyval (PyFloat f) = Inr (JFloat f)"
| "json_of_pyval (PyStr s) = Inr (JString s)"
| "json_of_pyval (NpInt64 _) = Inl (json_type_error (lit ''int64''))"
| "json_of_pyval (NpBool _) = Inl (json_type_error (lit ''bool_''))"

text \<open>The dictionary's items in insertion order (line 54).\<close>

definition dict_items :: "sensor_data \<Rightarrow> (pystr \<times> pyval) list" where
  "dict_items d =
     [(lit ''temp'', temp d), (lit ''hum'', hum d), (lit ''soil'', soil d),
      (lit ''crop'', crop d), (lit ''advice'', advice d)]"

fun encode_items :: "(pystr \<times> pyval) list \<Rightarrow> exn + (pystr \<times> json) list" where
  "encode_items [] = Inr []"
| "encode_items ((k, v) # kvs) =
     (case json_of_pyval v of
        Inl e \<Rightarrow> Inl e
      | Inr j \<Rightarrow> (case encode_items kvs of Inl e \<Rightarrow> Inl e | Inr js \<Rightarrow> Inr ((k, j) # js)))"

text \<open>\<open>json.dumps(sensor_data, sort_keys=True)\<close>: the items sorted by key, a
  Python \<open>str\<close> comparison, which is the lexicographic order on code points.\<close>

definition to_json :: "sensor_data \<Rightarrow> exn + json" where
  "to_json d = map_sum id JObject (encode_items (sort_key fst (dict_items d)))"

text \<open>The values the encoder accepts, those for which \<open>json_of_pyval\<close>
  does not raise.\<close>

definition json_serializable :: "pyval \<Rightarrow> bool" where
  "json_serializable v = (case json_of_pyval v of Inl _ \<Rightarrow> False | Inr _ \<Rightarrow> True)"

datatype response = JsonResponse json | InternalServerError exn

definition status :: "response \<Rightarrow> nat" where
  "status r = (case r of JsonResponse _ \<Rightarrow> 200 | InternalServerError _ \<Rightarrow> 500)"

definition data_route :: "sensor_data \<Rightarrow> response" where
  "data_route d = (case to_json d of Inl e \<Rightarrow> InternalServerError e | Inr j \<Rightarrow> JsonResponse j)"

subsection \<open>The text of the response\<close>

definition hex_digit :: "nat \<Rightarrow> codepoint" where
  "hex_digit k = (if k < 10 then 48 + k else 87 + k)"

definition hex4 :: "nat \<Rightarrow> pystr" where
  "hex4 n = map (\<lambda>k. hex_digit (n div 16 ^ k mod 16)) [3, 2, 1, 0]"

definition u_escape :: "nat \<Rightarrow> pystr" where
  "u_escape n = [92, 117] @ hex4 n"

text \<open>\<open>py_encode_basestring_ascii\<close>: the table \<open>ESCAPE_DCT\<close>, printable ASCII
  unchanged, \<open>\u\<close> escapes below U+10000 and surrogate pairs above.\<close>

definition escape_char :: "codepoint \<Rightarrow> pystr" where
  "escape_char c =
     (if c = 92 then [92, 92] else if c = 34 then [92, 34]
      else if c = 8 then [92, 98] else if c = 12 then [92, 102]
      else if c = 10 then [92, 110] else if c = 13 then [92, 114] else if c = 9 then [92, 116]
      else if 32 \<le> c \<and> c \<le> 126 then [c]
      else if c < 0x10000 then u_escape c
      else u_escape (0xD800 + (c - 0x10000) div 1024 mod 1024)
           @ u_escape (0xDC00 + (c - 0x10000) mod 1024))"

definition json_quote :: "pystr \<Rightarrow> pystr" where
  "json_quote s = 34 # concat (map escape_char s) @ [34]"

definition int_repr :: "int \<Rightarrow> pystr" where
  "int_repr i = (if i < 0 then 45 # nat_digits (nat (- i)) else nat_digits (nat i))"

text \<open>\<open>floatstr\<close> of \<open>json.encoder\<close> with \<open>allow_nan=True\<close>.\<close>

definition float_str :: "(bool \<Rightarrow> rat \<Rightarrow> pystr) \<Rightarrow> pyfloat \<Rightarrow> pystr" where
  "float_str fr f =
     (case f of NaN _ \<Rightarrow> lit ''NaN'' | Inf False \<Rightarrow> lit ''Infinity''
      | Inf True \<Rightarrow> lit ''-Infinity'' | Fin neg v \<Rightarrow> fr neg v)"

fun join_with :: "pystr \<Rightarrow> pystr list \<Rightarrow> pystr" where
  "join_with sep [] = []"
| "join_with sep [x] = x"
| "join_with sep (x # xs) = x @ sep @ join_with sep xs"

text \<open>\<open>_iterencode\<close> at nesting level \<open>lvl\<close>; \<open>pretty\<close> is \<open>indent=2\<close>
  with the separators \<open>', '\<close>/\<open>': '\<close> that go with it, otherwise Flask's
  compact separators \<open>','\<close>/\<open>':'\<close>.\<close>

fun json_text :: "bool \<Rightarrow> (bool \<Rightarrow> rat \<Rightarrow> pystr) \<Rightarrow> nat \<Rightarrow> json \<Rightarrow> pystr" where
  "json_text pretty fr lvl (JInt i) = int_repr i"
| "json_text pretty fr lvl (JFloat f) = float_str fr f"
| "json_text pretty fr lvl (JString s) = json_quote s"
| "json_text pretty fr lvl (JObject kvs) =
     (if kvs = [] then lit ''{}''
      else
        (let nl = (if pretty then 10 # replicate (2 * Suc lvl) 32 else []);
             close = (if pretty then 10 # replicate (2 * lvl) 32 else []);
             ksep = (if pretty then lit '': '' else lit '':'')
         in 123 # nl @ join_with (44 # nl)
              (map (\<lambda>kv. json_quote (fst kv) @ ksep @ json_text pretty fr (Suc lvl) (snd kv)) kvs)
            @ close @ [125]))"

text \<open>\<open>DefaultJSONProvider.response\<close>: the document and a newline.\<close>

definition response_body :: "bool \<Rightarrow> (bool \<Rightarrow> rat \<Rightarrow> pystr) \<Rightarrow> response \<Rightarrow> pystr option" where
  "response_body pretty fr r =
     (case r of JsonResponse j \<Rightarrow> Some (json_text pretty fr 0 j @ [10]) | InternalServerError _ \<Rightarrow> None)"

subsection \<open>Reading a JSON string back\<close>

definition hex_val :: "codepoint \<Rightarrow> nat option" where
  "hex_val c =
     (if 48 \<le> c \<and> c \<le> 57 then Some (c - 48)
      else if 97 \<le> c \<and> c \<le> 102 then Some (c - 87)
      else if 65 \<le> c \<and> c \<le> 70 then Some (c - 55) else None)"

fun hex_digits_val :: "nat \<Rightarrow> pystr \<Rightarrow> nat option" where
  "hex_digits_val n [] = Some n"
| "hex_digits_val n (c # cs) = (case hex_val c of None \<Rightarrow> None | Some k \<Rightarrow> hex_digits_val (16 * n + k) cs)"

text \<open>\<open>_decode_uXXXX\<close>: four hexadecimal digits of either case.\<close>

definition read_hex4 :: "pystr \<Rightarrow> (nat \<times> pystr) option" where
  "read_hex4 s =
     (if length s < 4 then None
      else map_option (\<lambda>n. (n, drop 4 s)) (hex_digits_val 0 (take 4 s)))"

definition simple_escape :: "codepoint \<Rightarrow> codepoint option" where
  "simple_escape e =
     (if e = 34 \<or> e = 92 \<or> e = 47 then Some e else if e = 98 then Some 8 else if e = 102 then Some 12
      else if e = 110 then Some 10 else if e = 114 then Some 13 else if e = 116 then Some 9 else None)"

text \<open>\<open>py_scanstring\<close> in strict mode on the characters between the quotes:
  control characters and an unescaped quote are errors, a high surrogate
  escape followed by a low surrogate escape is combined into one code point.\<close>

function json_unescape :: "pystr \<Rightarrow> pystr option" where
  "json_unescape [] = Some []"
| "json_unescape (c # cs) =
     (if c = 34 \<or> c < 32 then None
      else if c \<noteq> 92 then map_option (Cons c) (json_unescape cs)
      else (case cs of
              [] \<Rightarrow> None
            | e # r \<Rightarrow>
                if e \<noteq> 117 then
                  (case simple_escape e of None \<Rightarrow> None | Some x \<Rightarrow> map_option (Cons x) (json_unescape r))
                else
                  (case read_hex4 r of
                     None \<Rightarrow> None
                   | Some (u, r1) \<Rightarrow>
                       if 0xD800 \<le> u \<and> u \<le> 0xDBFF \<and> take 2 r1 = [92, 117] then
                         (case read_hex4 (drop 2 r1) of
                            None \<Rightarrow> None
                          | Some (u2, r2) \<Rightarrow>
                              if 0xDC00 \<le> u2 \<and> u2 \<le> 0xDFFF
                              then map_option (Cons (0x10000 + (u - 0xD800) * 1024 + (u2 - 0xDC00)))
                                     (json_unescape r2)
                              else map_option (Cons u) (json_unescape r1))
                       else map_option (Cons u) (json_unescape r1))))"
  by pat_completeness auto
termination
  by (relation "measure length") (auto simp: read_hex4_def split: if_splits)

declare json_unescape.simps [simp del]

lemmas query_defs [model_defs] = json_type_error_def dict_items_def to_json_def status_def data_route_def
  hex_digit_def hex4_def u_escape_def escape_char_def json_quote_def int_repr_def float_str_def
  response_body_def hex_val_def read_hex4_def simple_escape_def

subsection \<open>Lemmas\<close>

lemma hex_val_digit: "k < 16 \<Longrightarrow> hex_val (hex_digit k) = Some k"
  by (auto simp: hex_val_def hex_digit_def)

lemma hex_digits_16:
  fixes n :: nat
  shows "4096 * (n div 4096) + 256 * (n div 256 mod 16) + 16 * (n div 16 mod 16) + n mod 16 = n"
proof -
  have b: "n div 256 = 16 * (n div 4096) + n div 256 mod 16"
    using div_mult_mod_eq [of "n div 256" 16] by (simp add: div_mult2_eq [symmetric])
  have c: "n div 16 = 16 * (n div 256) + n div 16 mod 16"
    using div_mult_mod_eq [of "n div 16" 16] by (simp add: div_mult2_eq [symmetric])
  have d: "n = 16 * (n div 16) + n mod 16"
    using div_mult_mod_eq [of n 16] by simp
  show ?thesis using b c d by linarith
qed

lemma read_hex4_hex4: "n < 65536 \<Longrightarrow> read_hex4 (hex4 n @ rest) = Some (n, rest)"
  by (simp add: read_hex4_def hex4_def hex_val_digit hex_digits_16)

lemma hex4_chars: "c \<in> set (hex4 n) \<Longrightarrow> 48 \<le> c \<and> c \<le> 102"
  by (auto simp: hex4_def hex_digit_def)


lemma json_unescape_literal:
  "32 \<le> c \<Longrightarrow> c \<noteq> 34 \<Longrightarrow> c \<noteq> 92 \<Longrightarrow> json_unescape (c # rest) = map_option (Cons c) (json_unescape rest)"
  by (simp add: json_unescape.simps)

lemma json_unescape_simple:
  "simple_escape e = Some x \<Longrightarrow> e \<noteq> 117 \<Longrightarrow>
   json_unescape (92 # e # rest) = map_option (Cons x) (json_unescape rest)"
  by (simp add: json_unescape.simps)

lemma json_unescape_u:
  "u < 65536 \<Longrightarrow> \<not> (0xD800 \<le> u \<and> u \<le> 0xDBFF) \<Longrightarrow>
   json_unescape (u_escape u @ rest) = map_option (Cons u) (json_unescape rest)"
  by (auto simp: json_unescape.simps u_escape_def read_hex4_hex4)

lemma json_unescape_pair:
  assumes "0xD800 \<le> hi" "hi \<le> 0xDBFF" "0xDC00 \<le> lo" "lo \<le> 0xDFFF"
  shows "json_unescape (u_escape hi @ u_escape lo @ rest)
           = map_option (Cons (0x10000 + (hi - 0xD800) * 1024 + (lo - 0xDC00))) (json_unescape rest)"
proof -
  have "take 2 (u_escape lo @ rest) = [92, 117]" "drop 2 (u_escape lo @ rest) = hex4 lo @ rest"
    by (simp_all add: u_escape_def hex4_def)
  with assms show ?thesis
    by (simp add: json_unescape.simps u_escape_def read_hex4_hex4)
qed

lemma surrogate_split:
  fixes c :: nat
  assumes "0x10000 \<le> c" "c < 0x110000"
  shows "0x10000 + (0xD800 + (c - 0x10000) div 1024 mod 1024 - 0xD800) * 1024
           + (0xDC00 + (c - 0x10000) mod 1024 - 0xDC00) = c"
    and "0xD800 + (c - 0x10000) div 1024 mod 1024 \<le> 0xDBFF"
    and "0xDC00 + (c - 0x10000) mod 1024 \<le> 0xDFFF"
proof -
  have q: "(c - 0x10000) div 1024 < 1024" using assms by (simp add: div_less_iff_less_mult)
  then show "0x10000 + (0xD800 + (c - 0x10000) div 1024 mod 1024 - 0xD800) * 1024
           + (0xDC00 + (c - 0x10000) mod 1024 - 0xDC00) = c"
    using assms div_mult_mod_eq [of "c - 0x10000" 1024] by simp
  show "0xD800 + (c - 0x10000) div 1024 mod 1024 \<le> 0xDBFF" using q by simp
  show "0xDC00 + (c - 0x10000) mod 1024 \<le> 0xDFFF" by simp
qed

lemma json_unescape_escape_char:
  assumes "scalar_value c"
  shows "json_unescape (escape_char c @ rest) = map_option (Cons c) (json_unescape rest)"
proof -
  consider (simple) "c \<in> {92, 34, 8, 12, 10, 13, 9}" | (lit) "c \<notin> {92, 34, 8, 12, 10, 13, 9}" "32 \<le> c" "c \<le> 126"
    | (bmp) "c \<notin> {92, 34, 8, 12, 10, 13, 9}" "\<not> (32 \<le> c \<and> c \<le> 126)" "c < 0x10000"
    | (astral) "c \<notin> {92, 34, 8, 12, 10, 13, 9}" "\<not> (32 \<le> c \<and> c \<le> 126)" "\<not> c < 0x10000"
    by blast
  then show ?thesis
  proof cases
    case simple
    then show ?thesis
      by (auto simp: escape_char_def simple_escape_def json_unescape.simps)
  next
    case lit
    then show ?thesis by (simp add: escape_char_def json_unescape_literal)
  next
    case bmp
    moreover have "\<not> (0xD800 \<le> c \<and> c \<le> 0xDBFF)" using assms by (auto simp: scalar_value_def)
    ultimately show ?thesis by (auto simp: escape_char_def json_unescape_u)
  next
    case astral
    have lt: "c < 0x110000" using assms by (simp add: scalar_value_def)
    have "escape_char c = u_escape (0xD800 + (c - 0x10000) div 1024 mod 1024)
           @ u_escape (0xDC00 + (c - 0x10000) mod 1024)"
      using astral by (simp add: escape_char_def)
    then show ?thesis
      using json_unescape_pair [of "0xD800 + (c - 0x10000) div 1024 mod 1024"
          "0xDC00 + (c - 0x10000) mod 1024" rest] surrogate_split [of c] astral(3) lt
      by simp
  qed
qed

lemma json_unescape_escape: "\<forall>c \<in> set s. scalar_value c \<Longrightarrow>
   json_unescape (concat (map escape_char s)) = Some s"
  by (induction s) (simp_all add: json_unescape.simps json_unescape_escape_char)


lemma json_of_pyval_ok: "json_serializable v \<longleftrightarrow> (\<exists>j. json_of_pyval v = Inr j)"
  by (simp add: json_serializable_def split: sum.split)

lemma json_serializable_simps [simp]:
  "json_serializable (PyInt i)" "json_serializable (PyFloat f)" "json_serializable (PyStr s)"
  "\<not> json_serializable (NpInt64 n)" "\<not> json_serializable (NpBool b)"
  by (simp_all add: json_serializable_def)

lemma encode_items_Inl: "(\<exists>e. encode_items kvs = Inl e) \<longleftrightarrow> (\<exists>kv \<in> set kvs. \<not> json_serializable (snd kv))"
proof (induction kvs)
  case Nil
  then show ?case by simp
next
  case (Cons kv kvs)
  then show ?case
    by (cases kv; cases "snd kv") (auto split: sum.splits)
qed

lemma sort_dict_items:
  "sort_key fst (dict_items d) =
     [(lit ''advice'', advice d), (lit ''crop'', crop d), (lit ''hum'', hum d), (lit ''soil'', soil d),
      (lit ''temp'', temp d)]"
  by (simp add: dict_items_def)

lemma set_dict_items: "(\<exists>kv \<in> set (dict_items d). P (snd kv)) \<longleftrightarrow> (\<exists>f. P (get_field d f))"
proof
  assume "\<exists>kv \<in> set (dict_items d). P (snd kv)"
  then show "\<exists>f. P (get_field d f)"
    by (auto simp: dict_items_def intro: exI [of _ FTemp] exI [of _ FHum] exI [of _ FSoil]
        exI [of _ FCrop] exI [of _ FAdvice])
next
  assume "\<exists>f. P (get_field d f)"
  then obtain f where "P (get_field d f)" ..
  then show "\<exists>kv \<in> set (dict_items d). P (snd kv)"
    by (cases f) (auto simp: dict_items_def)
qed

lemma join_with_snoc: "\<exists>p. join_with sep (xs @ [y]) = p @ y"
proof (induction xs)
  case Nil
  then show ?case by simp
next
  case (Cons x xs)
  then obtain p where "join_with sep (xs @ [y]) = p @ y" ..
  then show ?case by (cases xs) auto
qed

lemma escape_char_ascii: "c \<in> set (escape_char x) \<Longrightarrow> 32 \<le> c \<and> c \<le> 126"
  by (auto simp: escape_char_def u_escape_def dest!: hex4_chars split: if_splits)

subsection \<open>Properties of the query surface\<close>

text \<open>
  Before the first reading, \<open>GET /data\<close> answers the placeholder
  record: the five keys in sorted order with the integer 0 for the three
  readings and \<open>"N/A"\<close> for the two labels; in the compact form and in
  the indented form of debug mode (\<open>app.run(debug=True)\<close>) this is exactly
  the text below. (The spec documents the readings as floats; the
  placeholders are the integer 0 and are written \<open>0\<close>, not \<open>0.0\<close>.)
\<close>

theorem data_route_placeholder:
  "data_route initial_sensor_data =
     JsonResponse (JObject [(lit ''advice'', JString (lit ''N/A'')), (lit ''crop'', JString (lit ''N/A'')),
                            (lit ''hum'', JInt 0), (lit ''soil'', JInt 0), (lit ''temp'', JInt 0)])
   \<and> response_body False fr (data_route initial_sensor_data)
       = Some (lit ''{\"advice\":\"N/A\",\"crop\":\"N/A\",\"hum\":0,\"soil\":0,\"temp\":0}'' @ [10])
   \<and> response_body True fr (data_route initial_sensor_data)
       = Some (lit ''{'' @ [10] @ lit ''  \"advice\": \"N/A\",'' @ [10] @ lit ''  \"crop\": \"N/A\",'' @ [10]
               @ lit ''  \"hum\": 0,'' @ [10] @ lit ''  \"soil\": 0,'' @ [10] @ lit ''  \"temp\": 0'' @ [10]
               @ lit ''}'' @ [10])"
  by (simp add: model_defs initial_sensor_data_def nat_digits.simps numeral_2_eq_2)

text \<open>
  \<open>GET /data\<close> fails with \<open>500 Internal Server Error\<close> exactly when
  a value of the record is one \<open>json.dumps\<close> cannot serialise: a NumPy
  \<open>int64\<close> or \<open>bool_\<close> label, which \<open>predict\<close> returns when the label
  column of the dataset holds integers or booleans.
\<close>

theorem data_route_fails_iff:
  "(\<exists>e. data_route d = InternalServerError e) \<longleftrightarrow> (\<exists>f. \<not> json_serializable (get_field d f))"
proof -
  have "(\<exists>e. data_route d = InternalServerError e) \<longleftrightarrow> (\<exists>e. encode_items (sort_key fst (dict_items d)) = Inl e)"
    by (cases "encode_items (sort_key fst (dict_items d))") (simp_all add: data_route_def to_json_def)
  also have "\<dots> \<longleftrightarrow> (\<exists>kv \<in> set (dict_items d). \<not> json_serializable (snd kv))"
    by (simp add: encode_items_Inl)
  also have "\<dots> \<longleftrightarrow> (\<exists>f. \<not> json_serializable (get_field d f))"
    by (rule set_dict_items)
  finally show ?thesis .
qed

theorem data_route_fails_iff_witness:
  "\<exists>e. data_route (initial_sensor_data\<lparr>advice := NpInt64 1\<rparr>) = InternalServerError e"
proof -
  have "\<exists>f. \<not> json_serializable (get_field (initial_sensor_data\<lparr>advice := NpInt64 1\<rparr>) f)"
    by (rule exI [of _ FAdvice]) simp
  then show ?thesis using data_route_fails_iff by blast
qed

text \<open>
  When every value serialises, \<open>GET /data\<close> answers one flat JSON
  object with the keys \<open>advice\<close>, \<open>crop\<close>, \<open>hum\<close>, \<open>soil\<close>,
  \<open>temp\<close> in this order and each value encoded by its type.
\<close>

theorem data_route_sorted:
  assumes "json_of_pyval (advice d) = Inr ja" "json_of_pyval (crop d) = Inr jc"
    "json_of_pyval (hum d) = Inr jh" "json_of_pyval (soil d) = Inr js" "json_of_pyval (temp d) = Inr jt"
  shows "data_route d = JsonResponse (JObject [(lit ''advice'', ja), (lit ''crop'', jc), (lit ''hum'', jh),
                                                (lit ''soil'', js), (lit ''temp'', jt)])"
  using assms by (simp add: data_route_def to_json_def sort_dict_items)

theorem data_route_sorted_witness:
  "data_route \<lparr>temp = PyFloat (Fin False 25), hum = PyFloat (Fin False 60), soil = PyFloat (Fin False 40),
               crop = PyStr (lit ''Wheat''), advice = PyStr (lit ''Yes'')\<rparr> =
   JsonResponse (JObject [(lit ''advice'', JString (lit ''Yes'')), (lit ''crop'', JString (lit ''Wheat'')),
     (lit ''hum'', JFloat (Fin False 60)), (lit ''soil'', JFloat (Fin False 40)),
     (lit ''temp'', JFloat (Fin False 25))])"
  by (rule data_route_sorted) simp_all

text \<open>The reading \<open>temp\<close> is the last member of the document, written by
  \<open>floatstr\<close>, in the compact and in the indented layout.\<close>

lemma data_route_temp_text:
  assumes "json_of_pyval (advice d) = Inr ja" "json_of_pyval (crop d) = Inr jc"
    "json_of_pyval (hum d) = Inr jh" "json_of_pyval (soil d) = Inr js" "temp d = PyFloat f"
  shows "\<exists>p. response_body pretty fr (data_route d)
           = Some (p @ lit ''\"temp\":'' @ (if pretty then [32] else []) @ float_str fr f
                   @ (if pretty then [10] else []) @ lit ''}'' @ [10])"
proof -
  let ?item = "\<lambda>kv. json_quote (fst kv) @ (if pretty then lit '': '' else lit '':'') @ json_text pretty fr 1 (snd kv)"
  have r: "data_route d = JsonResponse (JObject [(lit ''advice'', ja), (lit ''crop'', jc), (lit ''hum'', jh),
                                                (lit ''soil'', js), (lit ''temp'', JFloat f)])"
    using assms by (simp add: data_route_def to_json_def sort_dict_items)
  obtain p where "join_with (44 # (if pretty then 10 # replicate 2 32 else []))
                   (map ?item [(lit ''advice'', ja), (lit ''crop'', jc), (lit ''hum'', jh),
                                          (lit ''soil'', js)] @ [?item (lit ''temp'', JFloat f)])
                 = p @ ?item (lit ''temp'', JFloat f)"
    using join_with_snoc by blast
  then show ?thesis
    by (cases pretty) (simp_all add: r response_body_def json_quote_def escape_char_def)
qed

text \<open>
  C10. Every label is sent as a quoted string of printable ASCII characters
  from which a JSON reader recovers exactly the label, for every string of
  Unicode scalar values (non-ASCII characters as \<open>\u\<close> escapes, those
  above U+FFFF as surrogate pairs).
\<close>

theorem json_quote_roundtrip:
  assumes "\<forall>c \<in> set s. scalar_value c"
  shows "\<exists>b. json_quote s = 34 # b @ [34] \<and> json_unescape b = Some s \<and> (\<forall>c \<in> set b. 32 \<le> c \<and> c \<le> 126)"
  using assms json_unescape_escape escape_char_ascii by (auto simp: json_quote_def)

theorem json_quote_roundtrip_witness:
  "json_quote [0x1F331, 0xE9] = [34, 92, 117] @ lit ''d83c'' @ [92, 117] @ lit ''df31'' @ [92, 117] @ lit ''00e9'' @ [34]
   \<and> json_unescape ([92, 117] @ lit ''d83c'' @ [92, 117] @ lit ''df31'' @ [92, 117] @ lit ''00e9'') = Some [0x1F331, 0xE9]"
proof -
  have "\<forall>c \<in> set [0x1F331, 0xE9]. scalar_value c" by (simp add: scalar_value_def)
  from json_quote_roundtrip [OF this] obtain b where
    b: "json_quote [0x1F331, 0xE9] = 34 # b @ [34]" "json_unescape b = Some [0x1F331, 0xE9]" by blast
  have q: "json_quote [0x1F331, 0xE9] = [34, 92, 117] @ lit ''d83c'' @ [92, 117] @ lit ''df31'' @ [92, 117] @ lit ''00e9'' @ [34]"
    by (simp add: json_quote_def escape_char_def u_escape_def hex4_def hex_digit_def)
  with b(1) have "b = [92, 117] @ lit ''d83c'' @ [92, 117] @ lit ''df31'' @ [92, 117] @ lit ''00e9''" by simp
  with q b(2) show ?thesis by simp
qed

end
