(* ===== verification/Classifier.thy ===== *)
theory Classifier
  imports SensorData
begin

text \<open>
  The model trainer of \<open>src/app.py\<close> (lines 21 to 50) and the prediction
  call of the background thread (lines 76 to 82). The CSV file is read by
  pandas (\<open>read_csv\<close>, here its result: a table or the exception it raises);
  the column names are stripped of white space (line 30); the feature
  columns and the two label columns are selected by name, which raises
  \<open>KeyError\<close> for a missing name and selects every column of a duplicated
  name (lines 33 to 35); each classifier is fitted by scikit-learn's
  \<open>RandomForestClassifier().fit\<close>. The forest itself is not modelled: the
  fitting procedure is a parameter \<open>fit\<close> of every definition and theorem (a
  random forest is fitted with a fresh random seed at every start, so nothing
  about the program may depend on which function it returns). What is modelled
  of a fitted classifier is what \<open>predict\<close> checks before it decides: the
  feature names it was fitted with must equal the columns of the frame it is
  given (scikit-learn 1.2 and later raise \<open>ValueError\<close> otherwise).
\<close>

record table =
  header :: "pystr list"
  cells :: "pyval list list"

record classifier =
  feature_names :: "pystr list"
  decide :: "pyfloat list \<Rightarrow> exn + pyval"

type_synonym fitter = "table \<Rightarrow> nat list \<Rightarrow> nat list \<Rightarrow> exn + (pyfloat list \<Rightarrow> exn + pyval)"

definition feature_columns :: "pystr list" where
  "feature_columns = [lit ''Temperature'', lit ''Humidity'', lit ''SoilMoisture'']"

definition crop_column :: pystr where
  "crop_column = lit ''Crop''"

definition irrigation_column :: pystr where
  "irrigation_column = lit ''Irrigation_Needed''"

text \<open>\<open>data.columns = data.columns.str.strip()\<close>\<close>

definition strip_columns :: "table \<Rightarrow> table" where
  "strip_columns t = t\<lparr>header := map py_strip (header t)\<rparr>"

text \<open>
  \<open>data[names]\<close> and \<open>data[name]\<close>: the positions of the columns with the
  given names, every match of a duplicated name in header order, or
  \<open>KeyError\<close> with the names that match no column.
\<close>

definition matching_columns :: "pystr list \<Rightarrow> pystr \<Rightarrow> nat list" where
  "matching_columns hd_names n = filter (\<lambda>i. hd_names ! i = n) [0..<length hd_names]"

definition select_columns :: "table \<Rightarrow> pystr list \<Rightarrow> exn + nat list" where
  "select_columns t names =
     (let missing = filter (\<lambda>n. n \<notin> set (header t)) names
      in if missing \<noteq> [] then Inl (KeyError missing)
         else Inr (concat (map (matching_columns (header t)) names)))"

text \<open>\<open>RandomForestClassifier().fit(X, y)\<close>: the fitted classifier remembers the
  names of the columns of \<open>X\<close>.\<close>

definition fit_classifier :: "fitter \<Rightarrow> table \<Rightarrow> nat list \<Rightarrow> nat list \<Rightarrow> exn + classifier" where
  "fit_classifier fit t xs ys =
     (case fit t xs ys of
        Inl e \<Rightarrow> Inl e
      | Inr f \<Rightarrow> Inr \<lparr>feature_names = map (\<lambda>i. header t ! i) xs, decide = f\<rparr>)"

text \<open>\<open>model.predict(frame)[0]\<close> on a one-row frame with columns \<open>cols\<close>.\<close>

definition predict_one :: "classifier \<Rightarrow> pystr list \<Rightarrow> pyfloat list \<Rightarrow> exn + pyval" where
  "predict_one m cols row =
     (if cols \<noteq> feature_names m
      then Inl (ValueError (lit ''The feature names should match those that were passed during fit.''))
      else decide m row)"

text \<open>
  The \<open>try\<close> block of lines 26 to 50: its \<open>except FileNotFoundError\<close> and
  \<open>except KeyError\<close> clauses print a message and call \<open>exit()\<close>; any other
  exception (a pandas parser error, a \<open>ValueError\<close> of \<open>fit\<close>) is not caught
  and ends the module with a traceback. Either way the web server is never
  started.
\<close>

datatype training = Trained classifier classifier | TrainingExit | TrainingCrash exn

fun training_handler :: "exn \<Rightarrow> training \<times> effect list" where
  "training_handler FileNotFoundError = (TrainingExit, [Print DatasetNotFound])"
| "training_handler (KeyError k) = (TrainingExit, [Print (ColumnMismatch (KeyError k))])"
| "training_handler e = (TrainingCrash e, [])"

definition fit_both :: "fitter \<Rightarrow> table \<Rightarrow> nat list \<Rightarrow> nat list \<Rightarrow> nat list \<Rightarrow> training \<times> effect list"
  where
  "fit_both fit data xs yc yi =
     (case fit_classifier fit data xs yc of
        Inl e \<Rightarrow> training_handler e
      | Inr cm \<Rightarrow>
          (case fit_classifier fit data xs yi of
             Inl e \<Rightarrow> training_handler e
           | Inr im \<Rightarrow> (Trained cm im, [])))"

definition train_models :: "exn + table \<Rightarrow> fitter \<Rightarrow> training \<times> effect list" where
  "train_models csv fit =
     (case csv of
        Inl e \<Rightarrow> training_handler e
      | Inr raw \<Rightarrow>
          (let data = strip_columns raw
           in case select_columns data feature_columns of
                Inl e \<Rightarrow> training_handler e
              | Inr xs \<Rightarrow>
                  (case select_columns data [crop_column] of
                     Inl e \<Rightarrow> training_handler e
                   | Inr yc \<Rightarrow>
                       (case select_columns data [irrigation_column] of
                          Inl e \<Rightarrow> training_handler e
                        | Inr yi \<Rightarrow> fit_both fit data xs yc yi))))"

lemmas classifier_defs [model_defs] = feature_columns_def crop_column_def irrigation_column_def
  strip_columns_def matching_columns_def select_columns_def fit_classifier_def predict_one_def
  fit_both_def train_models_def

subsection \<open>Column selection and training\<close>

lemma matching_columns_names: "map (nth hs) (matching_columns hs n) = filter (\<lambda>m. m = n) hs"
proof -
  have "filter (\<lambda>m. m = n) hs = filter (\<lambda>m. m = n) (map (nth hs) [0..<length hs])"
    by (simp add: map_nth)
  then show ?thesis by (simp add: matching_columns_def filter_map comp_def)
qed

lemma filter_eq_distinct: "distinct hs \<Longrightarrow> n \<in> set hs \<Longrightarrow> filter (\<lambda>m. m = n) hs = [n]"
  by (induction hs) (auto simp: filter_empty_conv)

lemma select_columns_Inl:
  "(\<exists>e. select_columns t names = Inl e) \<longleftrightarrow> (\<exists>n \<in> set names. n \<notin> set (header t))"
  by (auto simp: select_columns_def Let_def filter_empty_conv)

lemma select_columns_names:
  "select_columns t names = Inr ix \<Longrightarrow> map (nth (header t)) ix = concat (map (\<lambda>n. filter (\<lambda>m. m = n) (header t)) names)"
  by (auto simp: select_columns_def Let_def map_concat matching_columns_names comp_def split: if_splits)

lemma select_columns_distinct:
  assumes "distinct (header t)" "set names \<subseteq> set (header t)"
  shows "\<exists>ix. select_columns t names = Inr ix \<and> map (nth (header t)) ix = names"
proof -
  have ok: "filter (\<lambda>n. n \<notin> set (header t)) names = []" using assms(2) by (auto simp: filter_empty_conv)
  then obtain ix where ix: "select_columns t names = Inr ix" by (simp add: select_columns_def)
  have "concat (map (\<lambda>n. filter (\<lambda>m. m = n) (header t)) names) = concat (map (\<lambda>n. [n]) names)"
    using assms by (intro arg_cong [where f = concat] map_cong) (auto simp: filter_eq_distinct)
  with ix select_columns_names [OF ix] show ?thesis by simp
qed

lemma sum_list_ge_length:
  "\<forall>m \<in> set ns. 1 \<le> f m \<Longrightarrow> n \<in> set ns \<Longrightarrow> 2 \<le> f n \<Longrightarrow> length ns < sum_list (map f ns)"
proof (induction ns)
  case Nil
  then show ?case by simp
next
  case (Cons m ns)
  show ?case
  proof (cases "n \<in> set ns")
    case True
    with Cons show ?thesis by simp
  next
    case False
    with Cons.prems have "m = n" by simp
    moreover have "length ns \<le> sum_list (map f ns)"
      using Cons.prems(1) by (induction ns) fastforce+
    ultimately show ?thesis using Cons.prems(3) by simp
  qed
qed

lemma length_filter_eq: "length (filter (\<lambda>x. x = m) hs) = count_list hs m"
  by (induction hs) auto

lemma count_list_pos: "Suc 0 \<le> count_list hs m \<longleftrightarrow> m \<in> set hs"
  by (induction hs) auto

lemma select_columns_dup:
  assumes "select_columns t names = Inr ix" "n \<in> set names" "2 \<le> count_list (header t) n"
  shows "length names < length (map (nth (header t)) ix)"
proof -
  have sub: "\<forall>m \<in> set names. 1 \<le> count_list (header t) m"
    using assms(1) by (auto simp: select_columns_def Let_def filter_empty_conv count_list_pos split: if_splits)
  have "length (map (nth (header t)) ix) = sum_list (map (count_list (header t)) names)"
    by (simp add: select_columns_names [OF assms(1)] length_concat comp_def length_filter_eq)
  with sum_list_ge_length [OF sub assms(2,3)] show ?thesis by simp
qed


lemma training_handler_not_trained [simp]: "training_handler e \<noteq> (Trained cm im, out)"
  by (cases e) simp_all

lemma fit_both_Trained:
  "fit_both fit data xs yc yi = (Trained cm im, out) \<Longrightarrow>
   feature_names cm = map (nth (header data)) xs \<and> feature_names im = map (nth (header data)) xs \<and> out = []"
  by (auto simp: fit_both_def fit_classifier_def split: sum.splits)

lemma train_models_Trained:
  assumes "train_models (Inr raw) fit = (Trained cm im, out)"
  shows "\<exists>xs. select_columns (strip_columns raw) feature_columns = Inr xs \<and>
           feature_names cm = map (nth (header (strip_columns raw))) xs \<and>
           feature_names im = map (nth (header (strip_columns raw))) xs \<and> out = []"
  using assms fit_both_Trained
  by (auto simp: train_models_def Let_def split: sum.splits)

lemma train_models_duplicate:
  assumes "train_models (Inr raw) fit = (Trained cm im, out)"
    and "n \<in> set feature_columns" and "2 \<le> count_list (map py_strip (header raw)) n"
  shows "predict_one cm feature_columns row
           = Inl (ValueError (lit ''The feature names should match those that were passed during fit.''))
       \<and> predict_one im feature_columns row
           = Inl (ValueError (lit ''The feature names should match those that were passed during fit.''))"
proof -
  obtain xs where xs: "select_columns (strip_columns raw) feature_columns = Inr xs"
    "feature_names cm = map (nth (header (strip_columns raw))) xs"
    "feature_names im = map (nth (header (strip_columns raw))) xs"
    using train_models_Trained [OF assms(1)] by blast
  have "length feature_columns < length (feature_names cm)"
    using select_columns_dup [OF xs(1) assms(2)] assms(3) xs(2) by (simp add: strip_columns_def)
  then have "feature_columns \<noteq> feature_names cm" by auto
  moreover have "feature_names im = feature_names cm" using xs(2,3) by simp
  ultimately have "feature_columns \<noteq> feature_names cm" "feature_columns \<noteq> feature_names im" by simp_all
  then show ?thesis by (simp add: predict_one_def)
qed

subsection \<open>Properties of the trainer\<close>

text \<open>
  C34. A missing dataset file, or a dataset in which one of the five required
  columns is absent after the column names are stripped, ends the program in
  the trainer (\<open>exit()\<close> after the message), before the serial thread or
  the web server is started.
\<close>

theorem train_models_exit:
  assumes "csv = Inl FileNotFoundError \<or>
           (\<exists>raw. csv = Inr raw \<and> (\<exists>n \<in> set (feature_columns @ [crop_column, irrigation_column]).
                                     n \<notin> set (map py_strip (header raw))))"
  shows "fst (train_models csv fit) = TrainingExit"
  using assms
  by (auto simp: train_models_def Let_def select_columns_def strip_columns_def filter_empty_conv
      split: sum.splits)

theorem train_models_exit_witness:
  "fst (train_models (Inr \<lparr>header = [lit ''Temperature'', lit ''Humidity'', lit ''Soil Moisture'', lit ''Crop'',
                                    lit ''Irrigation_Needed''], cells = []\<rparr>)
          (\<lambda>t a b. Inr (\<lambda>row. Inr (PyStr (lit ''Wheat''))))) = TrainingExit"
  by (rule train_models_exit) (simp add: model_defs)

text \<open>
  C35. A dataset whose stripped column names are distinct and include the five
  required ones trains both models (when fitting succeeds), and both are
  fitted on exactly the feature columns \<open>Temperature\<close>,
  \<open>Humidity\<close>, \<open>SoilMoisture\<close> in this order: white space around the
  names in the file does not matter, as the spec requires.
\<close>

theorem train_models_trained:
  assumes "distinct (map py_strip (header raw))"
    and "set (feature_columns @ [crop_column, irrigation_column]) \<subseteq> set (map py_strip (header raw))"
    and "\<forall>a b. \<not> isl (fit (strip_columns raw) a b)"
  shows "\<exists>cm im. train_models (Inr raw) fit = (Trained cm im, [])
                 \<and> feature_names cm = feature_columns \<and> feature_names im = feature_columns"
proof -
  let ?d = "strip_columns raw"
  have h: "header ?d = map py_strip (header raw)" by (simp add: strip_columns_def)
  obtain xs where xs: "select_columns ?d feature_columns = Inr xs" "map (nth (header ?d)) xs = feature_columns"
    using select_columns_distinct [of ?d feature_columns] assms(1,2) h by auto
  obtain yc where yc: "select_columns ?d [crop_column] = Inr yc"
    using select_columns_distinct [of ?d "[crop_column]"] assms(1,2) h by auto
  obtain yi where yi: "select_columns ?d [irrigation_column] = Inr yi"
    using select_columns_distinct [of ?d "[irrigation_column]"] assms(1,2) h by auto
  have "\<not> isl (fit ?d xs yc)" using assms(3) by blast
  then obtain f1 where f1: "fit ?d xs yc = Inr f1" by (cases "fit ?d xs yc") auto
  have "\<not> isl (fit ?d xs yi)" using assms(3) by blast
  then obtain f2 where f2: "fit ?d xs yi = Inr f2" by (cases "fit ?d xs yi") auto
  have "train_models (Inr raw) fit = (Trained \<lparr>feature_names = feature_columns, decide = f1\<rparr>
                                        \<lparr>feature_names = feature_columns, decide = f2\<rparr>, [])"
    by (simp add: train_models_def xs yc yi fit_both_def fit_classifier_def f1 f2)
  then show ?thesis by auto
qed

theorem train_models_trained_witness:
  "\<exists>cm im. train_models (Inr \<lparr>header = [lit '' Temperature'', lit ''Humidity '', lit ''SoilMoisture'', lit ''Crop'',
                                    lit ''Irrigation_Needed''], cells = []\<rparr>)
          (\<lambda>t a b. Inr (\<lambda>row. Inr (PyStr (lit ''Wheat''))))
        = (Trained cm im, []) \<and> feature_names cm = feature_columns \<and> feature_names im = feature_columns"
  by (rule train_models_trained) (simp_all add: model_defs)

end
