(* ===== verification/Ingest.thy ===== *)
theory Ingest
  imports Utf8 Classifier
begin

text \<open>
  The ingest loop \<open>read_arduino\<close> of \<open>src/app.py\<close> (lines 57 to 95), run by
  the background thread. One iteration of \<open>while True\<close> is
  \<open>ingest_iter\<close>: the \<open>try\<close> block \<open>try_body\<close> reads one line with
  \<open>arduino.readline()\<close> (a \<open>serial_event\<close>: the bytes returned, empty on
  a timeout, or the exception raised), decodes it, strips it, splits it at
  commas, converts three fields with \<open>float\<close>, writes the three readings and
  the two predictions into \<open>sensor_data\<close>; the two \<open>except\<close> clauses
  follow. The writes an iteration makes are returned as a list in the order of
  the source, so that the concurrent reader of \<open>System\<close> can observe the
  dictionary between any two of them. An exception leaves the writes made
  before it in place, as in Python.

  The local variable \<open>line\<close> is part of the state: it is bound by the
  assignment on line 64 only when \<open>readline\<close>, \<open>decode\<close> and
  \<open>strip\<close> all succeed, and the \<open>except ValueError\<close> handler reads it.
  \<open>UnicodeDecodeError\<close> is a subclass of \<open>ValueError\<close>, so a decoding
  failure reaches that handler; if \<open>line\<close> was never bound, the f-string
  raises \<open>UnboundLocalError\<close> inside the handler, which no clause catches:
  the thread ends.
\<close>

datatype serial_event = Readline "byte list" | ReadRaises exn

record ingest_state =
  sensor :: sensor_data
  line_var :: "pystr option"
  running :: bool

text \<open>\<open>temp, hum, soil = map(float, values)\<close>: the conversions run left to
  right and the first failure raises.\<close>

fun parse_fields :: "pystr list \<Rightarrow> exn + pyfloat list" where
  "parse_fields [] = Inr []"
| "parse_fields (f # fs) =
     (case py_float f of
        Inl e \<Rightarrow> Inl e
      | Inr v \<Rightarrow> (case parse_fields fs of Inl e \<Rightarrow> Inl e | Inr vs \<Rightarrow> Inr (v # vs)))"

text \<open>Lines 76 to 82: both models must be truthy (a fitted forest is, by its
  non-zero number of trees); the crop is predicted and stored before the
  irrigation advice is predicted.\<close>

definition predict_writes ::
  "classifier option \<Rightarrow> classifier option \<Rightarrow> pyfloat list \<Rightarrow> exn option \<times> (field \<times> pyval) list"
  where
  "predict_writes cm im row =
     (case (cm, im) of
        (Some c, Some i) \<Rightarrow>
          (case predict_one c feature_columns row of
             Inl e \<Rightarrow> (Some e, [])
           | Inr label \<Rightarrow>
               (case predict_one i feature_columns row of
                  Inl e \<Rightarrow> (Some e, [(FCrop, label)])
                | Inr adv \<Rightarrow> (None, [(FCrop, label), (FAdvice, adv)])))
      | _ \<Rightarrow> (None, []))"

text \<open>Lines 65 to 82, on the stripped line \<open>l\<close>: the exception raised (if
  any) and the item assignments made.\<close>

definition process_line ::
  "classifier option \<Rightarrow> classifier option \<Rightarrow> pystr \<Rightarrow> exn option \<times> (field \<times> pyval) list"
  where
  "process_line cm im l =
     (if l = [] then (None, [])
      else if length (py_split 44 l) \<noteq> 3 then (None, [])
      else
        (case parse_fields (py_split 44 l) of
           Inl e \<Rightarrow> (Some e, [])
         | Inr row \<Rightarrow>
             (case predict_writes cm im row of
                (exc, ps) \<Rightarrow>
                  (exc, [(FTemp, PyFloat (row ! 0)), (FHum, PyFloat (row ! 1)),
                         (FSoil, PyFloat (row ! 2))] @ ps))))"

text \<open>The \<open>try\<close> block of lines 63 to 83: the exception it raises (if any),
  the value of \<open>line\<close> after it, and the item assignments it made.\<close>

definition try_body ::
  "classifier option \<Rightarrow> classifier option \<Rightarrow> pystr option \<Rightarrow> serial_event
     \<Rightarrow> exn option \<times> pystr option \<times> (field \<times> pyval) list"
  where
  "try_body cm im line ev =
     (case ev of
        ReadRaises e \<Rightarrow> (Some e, line, [])
      | Readline bs \<Rightarrow>
          (case utf8_decode bs of
             None \<Rightarrow> (Some UnicodeDecodeError, line, [])
           | Some txt \<Rightarrow>
               (case process_line cm im (py_strip txt) of
                  (exc, ws) \<Rightarrow> (exc, Some (py_strip txt), ws))))"

text \<open>The handlers of lines 87 to 95.\<close>

definition handle_exn :: "exn \<Rightarrow> ingest_state \<Rightarrow> ingest_state \<times> effect list" where
  "handle_exn e st =
     (if is_ValueError e then
        (case line_var st of
           None \<Rightarrow> (st\<lparr>running := False\<rparr>, [Print (ThreadCrashed (UnboundLocalError (lit ''line'')))])
         | Some l \<Rightarrow> (st, [Print (NonNumeric l)]))
      else (st, [Print (ReadError e), Sleep 1]))"

definition ingest_iter ::
  "classifier option \<Rightarrow> classifier option \<Rightarrow> ingest_state \<Rightarrow> serial_event \<Rightarrow> ingest_state \<times> effect list"
  where
  "ingest_iter cm im st ev =
     (let (exc, l, ws) = try_body cm im (line_var st) ev;
          st' = st\<lparr>sensor := apply_writes (sensor st) ws, line_var := l\<rparr>
      in case exc of None \<Rightarrow> (st', []) | Some e \<Rightarrow> handle_exn e st')"

text \<open>The loop over the lines the serial port delivers, for as long as the
  thread runs: a finite prefix of the infinite loop.\<close>

fun ingest_run ::
  "classifier option \<Rightarrow> classifier option \<Rightarrow> ingest_state \<Rightarrow> serial_event list \<Rightarrow> ingest_state \<times> effect list"
  where
  "ingest_run cm im st [] = (st, [])"
| "ingest_run cm im st (ev # evs) =
     (if running st then
        (let (st1, out1) = ingest_iter cm im st ev;
             (st2, out2) = ingest_run cm im st1 evs
         in (st2, out1 @ out2))
      else (st, []))"

text \<open>\<open>read_arduino()\<close>: without a serial connection it prints and returns;
  otherwise it loops with \<open>line\<close> unbound.\<close>

definition read_arduino ::
  "bool \<Rightarrow> classifier option \<Rightarrow> classifier option \<Rightarrow> sensor_data \<Rightarrow> serial_event list
     \<Rightarrow> ingest_state \<times> effect list"
  where
  "read_arduino has_port cm im d evs =
     (if \<not> has_port then (\<lparr>sensor = d, line_var = None, running = False\<rparr>, [Print ThreadNotRunning])
      else ingest_run cm im \<lparr>sensor = d, line_var = None, running = True\<rparr> evs)"

text \<open>Whether an event binds \<open>line\<close> (the assignment of line 64 completes),
  and whether it raises into the \<open>except ValueError\<close> handler without doing so.\<close>

definition binds_line :: "serial_event \<Rightarrow> bool" where
  "binds_line ev = (case ev of Readline bs \<Rightarrow> utf8_decode bs \<noteq> None | ReadRaises _ \<Rightarrow> False)"

definition fatal_unbound :: "serial_event \<Rightarrow> bool" where
  "fatal_unbound ev = (case ev of Readline bs \<Rightarrow> utf8_decode bs = None | ReadRaises e \<Rightarrow> is_ValueError e)"

lemmas ingest_defs [model_defs] = predict_writes_def process_line_def try_body_def handle_exn_def ingest_iter_def
  read_arduino_def

subsection \<open>One iteration, branch by branch\<close>

lemma py_float_error: "py_float x = Inl e \<Longrightarrow> e = ValueError x"
  by (auto simp: py_float_def float_inner_def Let_def split: if_splits option.splits prod.splits list.splits)

lemma parse_fields_error: "parse_fields fs = Inl e \<Longrightarrow> is_ValueError e"
  by (induction fs) (auto split: sum.splits dest: py_float_error)

lemma ingest_iter_result:
  "try_body cm im (line_var st) ev = (exc, l, ws) \<Longrightarrow>
   ingest_iter cm im st ev =
     (case exc of None \<Rightarrow> (st\<lparr>sensor := apply_writes (sensor st) ws, line_var := l\<rparr>, [])
      | Some e \<Rightarrow> handle_exn e (st\<lparr>sensor := apply_writes (sensor st) ws, line_var := l\<rparr>))"
  by (simp add: ingest_iter_def Let_def)

lemma parse_fields_three:
  "parse_fields [a, b, c] =
     (case py_float a of Inl e \<Rightarrow> Inl e | Inr t \<Rightarrow>
      (case py_float b of Inl e \<Rightarrow> Inl e | Inr h \<Rightarrow>
       (case py_float c of Inl e \<Rightarrow> Inl e | Inr s \<Rightarrow> Inr [t, h, s])))"
  by (simp split: sum.splits)

lemma try_body_line:
  "utf8_decode bs = Some txt \<Longrightarrow>
   try_body cm im line (Readline bs) =
     (fst (process_line cm im (py_strip txt)), Some (py_strip txt), snd (process_line cm im (py_strip txt)))"
  by (simp add: try_body_def split: prod.splits)

lemma process_line_valid:
  assumes "py_split 44 l = [a, b, c]"
    and "py_float a = Inr t" "py_float b = Inr h" "py_float c = Inr s"
    and "predict_one cm feature_columns [t, h, s] = Inr lc"
    and "predict_one im feature_columns [t, h, s] = Inr la"
  shows "process_line (Some cm) (Some im) l =
           (None, [(FTemp, PyFloat t), (FHum, PyFloat h), (FSoil, PyFloat s), (FCrop, lc), (FAdvice, la)])"
proof -
  have "l \<noteq> []" using assms(1) by (auto simp: py_split_def)
  with assms show ?thesis
    by (simp add: process_line_def parse_fields_three predict_writes_def)
qed

lemma process_line_predict_fails:
  assumes "py_split 44 l = [a, b, c]"
    and "py_float a = Inr t" "py_float b = Inr h" "py_float c = Inr s"
    and "predict_one cm feature_columns [t, h, s] = Inl e"
  shows "process_line (Some cm) (Some im) l = (Some e, [(FTemp, PyFloat t), (FHum, PyFloat h), (FSoil, PyFloat s)])"
proof -
  have "l \<noteq> []" using assms(1) by (auto simp: py_split_def)
  with assms show ?thesis
    by (simp add: process_line_def parse_fields_three predict_writes_def)
qed

lemma predict_writes_labels: "\<forall>w \<in> set (snd (predict_writes cm im row)). fst w = FCrop \<or> fst w = FAdvice"
  by (auto simp: predict_writes_def split: option.splits sum.splits)

lemma process_line_readings:
  assumes "py_split 44 l = [a, b, c]"
    and "py_float a = Inr t" "py_float b = Inr h" "py_float c = Inr s"
  shows "snd (process_line cm im l)
           = [(FTemp, PyFloat t), (FHum, PyFloat h), (FSoil, PyFloat s)] @ snd (predict_writes cm im [t, h, s])"
proof -
  have "l \<noteq> []" using assms(1) by (auto simp: py_split_def)
  with assms show ?thesis
    by (simp add: process_line_def parse_fields_three split: prod.splits)
qed

lemma handle_exn_sensor [simp]: "sensor (fst (handle_exn e st)) = sensor st"
  by (simp add: handle_exn_def split: option.splits)

lemma handle_exn_line [simp]: "line_var (fst (handle_exn e st)) = line_var st"
  by (simp add: handle_exn_def split: option.splits)

lemma try_body_writes:
  "snd (snd (try_body cm im l1 ev)) = snd (snd (try_body cm im l2 ev))"
  by (simp add: try_body_def split: serial_event.splits option.splits prod.splits)

lemma ingest_iter_sensor:
  "sensor (fst (ingest_iter cm im st ev)) = apply_writes (sensor st) (snd (snd (try_body cm im (line_var st) ev)))"
  by (simp add: ingest_iter_def Let_def split: prod.splits option.splits)

lemma ingest_iter_running:
  "running (fst (ingest_iter cm im st ev)) \<longleftrightarrow>
     running st \<and> \<not> (\<exists>e. fst (try_body cm im (line_var st) ev) = Some e \<and> is_ValueError e
                      \<and> fst (snd (try_body cm im (line_var st) ev)) = None)"
  by (auto simp: ingest_iter_def Let_def handle_exn_def split: prod.splits option.splits)

lemma ingest_run_stopped [simp]: "\<not> running st \<Longrightarrow> ingest_run cm im st evs = (st, [])"
  by (cases evs) simp_all

lemma ingest_run_Cons_running:
  "running st \<Longrightarrow> ingest_iter cm im st ev = (st1, out1) \<Longrightarrow>
   ingest_run cm im st (ev # evs) = (fst (ingest_run cm im st1 evs), out1 @ snd (ingest_run cm im st1 evs))"
  by (simp split: prod.splits)

lemma try_body_keeps_line: "fst (snd (try_body cm im (Some l) ev)) \<noteq> None"
  by (simp add: try_body_def split: serial_event.splits option.splits prod.splits)

lemma ingest_iter_bound:
  "line_var st \<noteq> None \<Longrightarrow>
   line_var (fst (ingest_iter cm im st ev)) \<noteq> None \<and> running (fst (ingest_iter cm im st ev)) = running st"
proof -
  assume "line_var st \<noteq> None"
  then obtain l where l: "line_var st = Some l" by blast
  with try_body_keeps_line [of cm im l ev] show ?thesis
    by (auto simp: ingest_iter_def Let_def handle_exn_def split: prod.splits option.splits)
qed

lemma ingest_run_bound:
  assumes "line_var st \<noteq> None" and "running st"
  shows "running (fst (ingest_run cm im st evs))"
  using assms
proof (induction evs arbitrary: st)
  case Nil
  then show ?case by simp
next
  case (Cons ev evs)
  obtain st1 out1 where it: "ingest_iter cm im st ev = (st1, out1)" by fastforce
  with ingest_iter_bound [OF Cons.prems(1), of cm im ev] Cons.prems(2)
  have "line_var st1 \<noteq> None" "running st1" by simp_all
  with Cons.IH have "running (fst (ingest_run cm im st1 evs))" .
  with ingest_run_Cons_running [OF Cons.prems(2) it] show ?case by simp
qed

lemma ingest_iter_binds:
  assumes "binds_line ev"
  shows "line_var (fst (ingest_iter cm im st ev)) \<noteq> None \<and> running (fst (ingest_iter cm im st ev)) = running st"
proof -
  obtain bs u where ev: "ev = Readline bs" and dec: "utf8_decode bs = Some u"
    using assms by (auto simp: binds_line_def split: serial_event.splits)
  have "fst (snd (try_body cm im (line_var st) ev)) = Some (py_strip u)"
    by (simp add: ev try_body_line [OF dec])
  then show ?thesis
    by (auto simp: ingest_iter_def Let_def handle_exn_def split: prod.splits option.splits)
qed

lemma ingest_iter_unbound:
  assumes "\<not> binds_line ev" and "line_var st = None"
  shows "line_var (fst (ingest_iter cm im st ev)) = None
         \<and> running (fst (ingest_iter cm im st ev)) = (running st \<and> \<not> fatal_unbound ev)"
  using assms
  by (auto simp: ingest_iter_def Let_def handle_exn_def try_body_def binds_line_def fatal_unbound_def
      split: serial_event.splits option.splits)

subsection \<open>Properties of the ingest loop\<close>

text \<open>
  C1. A line that decodes, has three comma-separated fields that
  \<open>float()\<close> accepts, and for which both models predict, replaces the whole
  shared record by the three readings and the two predictions for them, binds
  \<open>line\<close>, prints nothing and keeps the thread running.
\<close>

theorem ingest_iter_valid_line:
  assumes "utf8_decode bs = Some txt" and "py_split 44 (py_strip txt) = [a, b, c]"
    and "py_float a = Inr t" "py_float b = Inr h" "py_float c = Inr s"
    and "predict_one cm feature_columns [t, h, s] = Inr lc"
    and "predict_one im feature_columns [t, h, s] = Inr la"
  shows "ingest_iter (Some cm) (Some im) st (Readline bs) =
           (st\<lparr>sensor := \<lparr>temp = PyFloat t, hum = PyFloat h, soil = PyFloat s, crop = lc, advice = la\<rparr>,
               line_var := Some (py_strip txt)\<rparr>, [])"
proof -
  have "process_line (Some cm) (Some im) (py_strip txt) =
          (None, [(FTemp, PyFloat t), (FHum, PyFloat h), (FSoil, PyFloat s), (FCrop, lc), (FAdvice, la)])"
    using assms(2-7) by (rule process_line_valid)
  then show ?thesis
    by (simp add: ingest_iter_result [OF try_body_line [OF assms(1)]])
qed

theorem ingest_iter_valid_line_witness:
  "ingest_iter
     (Some \<lparr>feature_names = feature_columns, decide = \<lambda>row. Inr (PyStr (lit ''Wheat''))\<rparr>)
     (Some \<lparr>feature_names = feature_columns, decide = \<lambda>row. Inr (PyStr (lit ''Yes''))\<rparr>)
     \<lparr>sensor = initial_sensor_data, line_var = None, running = True\<rparr>
     (Readline (utf8_encode (lit ''25.0,60.0,40.0'' @ [13, 10]))) =
   (\<lparr>sensor = \<lparr>temp = PyFloat (Fin False 25), hum = PyFloat (Fin False 60),
               soil = PyFloat (Fin False 40), crop = PyStr (lit ''Wheat''), advice = PyStr (lit ''Yes'')\<rparr>,
     line_var = Some (lit ''25.0,60.0,40.0''), running = True\<rparr>, [])"
proof -
  have dec: "utf8_decode (utf8_encode (lit ''25.0,60.0,40.0'' @ [13, 10])) = Some (lit ''25.0,60.0,40.0'' @ [13, 10])"
    by (simp add: utf8_decode.simps model_defs)
  have strip: "py_strip (lit ''25.0,60.0,40.0'' @ [13, 10]) = lit ''25.0,60.0,40.0''"
    by (simp add: model_defs)
  have split: "py_split 44 (py_strip (lit ''25.0,60.0,40.0'' @ [13, 10])) = [lit ''25.0'', lit ''60.0'', lit ''40.0'']"
    by (simp add: strip model_defs)
  have f: "py_float (lit ''25.0'') = Inr (Fin False 25)" "py_float (lit ''60.0'') = Inr (Fin False 60)"
    "py_float (lit ''40.0'') = Inr (Fin False 40)"
    by (simp_all add: model_defs)
  have p: "predict_one \<lparr>feature_names = feature_columns, decide = \<lambda>row. Inr (PyStr (lit ''Wheat''))\<rparr>
             feature_columns [Fin False 25, Fin False 60, Fin False 40] = Inr (PyStr (lit ''Wheat''))"
    "predict_one \<lparr>feature_names = feature_columns, decide = \<lambda>row. Inr (PyStr (lit ''Yes''))\<rparr>
             feature_columns [Fin False 25, Fin False 60, Fin False 40] = Inr (PyStr (lit ''Yes''))"
    by (simp_all add: predict_one_def)
  show ?thesis
    using ingest_iter_valid_line [OF dec split f p,
        of "\<lparr>sensor = initial_sensor_data, line_var = None, running = True\<rparr>", unfolded strip]
    by simp
qed

text \<open>
  C2. A line with other than three fields, or with a field \<open>float()\<close>
  rejects, leaves the shared record unchanged and the thread running; a
  conversion failure prints the line as non-numeric data.
\<close>

theorem ingest_iter_malformed:
  assumes "utf8_decode bs = Some txt" and "py_strip txt \<noteq> []"
    and "length (py_split 44 (py_strip txt)) \<noteq> 3 \<or> parse_fields (py_split 44 (py_strip txt)) = Inl e"
  shows "ingest_iter cm im st (Readline bs) =
           (st\<lparr>line_var := Some (py_strip txt)\<rparr>,
            if length (py_split 44 (py_strip txt)) \<noteq> 3 then [] else [Print (NonNumeric (py_strip txt))])"
proof -
  have "process_line cm im (py_strip txt) =
          (if length (py_split 44 (py_strip txt)) \<noteq> 3 then None else Some e, [])"
    using assms(2,3) by (auto simp: process_line_def)
  moreover have "length (py_split 44 (py_strip txt)) = 3 \<Longrightarrow> is_ValueError e"
    using assms(3) parse_fields_error by blast
  ultimately show ?thesis
    by (simp add: ingest_iter_result [OF try_body_line [OF assms(1)]] handle_exn_def
        split: if_splits)
qed

theorem ingest_iter_malformed_witness:
  "ingest_iter None None \<lparr>sensor = initial_sensor_data, line_var = None, running = True\<rparr>
     (Readline (utf8_encode (lit ''abc,60.0,40.0''))) =
   (\<lparr>sensor = initial_sensor_data, line_var = Some (lit ''abc,60.0,40.0''), running = True\<rparr>,
    [Print (NonNumeric (lit ''abc,60.0,40.0''))])"
proof -
  have dec: "utf8_decode (utf8_encode (lit ''abc,60.0,40.0'')) = Some (lit ''abc,60.0,40.0'')"
    by (simp add: utf8_decode.simps model_defs)
  have strip: "py_strip (lit ''abc,60.0,40.0'') = lit ''abc,60.0,40.0''"
    by (simp add: model_defs)
  have ne: "py_strip (lit ''abc,60.0,40.0'') \<noteq> []" unfolding strip by simp
  have bad: "length (py_split 44 (py_strip (lit ''abc,60.0,40.0''))) \<noteq> 3 \<or>
      parse_fields (py_split 44 (py_strip (lit ''abc,60.0,40.0''))) = Inl (ValueError (lit ''abc''))"
    by (simp add: strip model_defs)
  have len: "length (py_split 44 (lit ''abc,60.0,40.0'')) = 3"
    by (simp add: model_defs)
  show ?thesis
    using ingest_iter_malformed [OF dec ne bad,
        of None None "\<lparr>sensor = initial_sensor_data, line_var = None, running = True\<rparr>", unfolded strip len]
    by simp
qed

text \<open>
  C3. A line that fails to decode as UTF-8 before any line was ever bound to
  \<open>line\<close> (for instance noise from the microcontroller's reset right after
  the port is opened) ends the background thread: the \<open>except ValueError\<close>
  handler raises \<open>UnboundLocalError\<close>. No later line is ever read and the
  shared record stays as it was, whatever the serial port sends afterwards.
\<close>

theorem ingest_decode_crash:
  assumes "utf8_decode bs = None" and "line_var st = None" and "running st"
  shows "ingest_run cm im st (Readline bs # evs) =
           (st\<lparr>running := False\<rparr>, [Print (ThreadCrashed (UnboundLocalError (lit ''line'')))])"
proof -
  have "try_body cm im (line_var st) (Readline bs) = (Some UnicodeDecodeError, None, [])"
    using assms(1,2) by (simp add: try_body_def)
  then have "ingest_iter cm im st (Readline bs) =
               (st\<lparr>running := False\<rparr>, [Print (ThreadCrashed (UnboundLocalError (lit ''line'')))])"
    using assms(2) by (simp add: ingest_iter_result handle_exn_def)
  with assms(3) show ?thesis by simp
qed

theorem ingest_decode_crash_witness:
  "ingest_run None None \<lparr>sensor = initial_sensor_data, line_var = None, running = True\<rparr>
     (Readline [0xFF, 0x32] # Readline (utf8_encode (lit ''25.0,60.0,40.0'')) # []) =
   (\<lparr>sensor = initial_sensor_data, line_var = None, running = False\<rparr>,
    [Print (ThreadCrashed (UnboundLocalError (lit ''line'')))])"
proof -
  let ?st = "\<lparr>sensor = initial_sensor_data, line_var = None, running = True\<rparr>"
  have dec: "utf8_decode [0xFF, 0x32] = None"
    by (simp add: utf8_decode.simps utf8_char_def in_range_def)
  have "line_var ?st = None" "running ?st" by simp_all
  from ingest_decode_crash [OF dec this] have
    "ingest_run None None ?st (Readline [0xFF, 0x32] # Readline (utf8_encode (lit ''25.0,60.0,40.0'')) # []) =
       (?st\<lparr>running := False\<rparr>, [Print (ThreadCrashed (UnboundLocalError (lit ''line'')))])" .
  moreover have "?st\<lparr>running := False\<rparr> = \<lparr>sensor = initial_sensor_data, line_var = None, running = False\<rparr>"
    by simp
  ultimately show ?thesis by (simp only:)
qed

text \<open>
  C12. Once a line was bound, a line that fails to decode is reported through
  the \<open>ValueError\<close> handler as non-numeric data, naming the previous line,
  and is followed by no pause: the one-second pause the spec gives decoding
  errors applies only to exceptions outside \<open>ValueError\<close>.
\<close>

theorem ingest_decode_error_stale:
  assumes "utf8_decode bs = None" and "line_var st = Some l"
  shows "ingest_iter cm im st (Readline bs) = (st, [Print (NonNumeric l)])"
proof -
  have "try_body cm im (line_var st) (Readline bs) = (Some UnicodeDecodeError, Some l, [])"
    using assms by (simp add: try_body_def)
  with assms(2) show ?thesis
    by (simp add: ingest_iter_result handle_exn_def)
qed

theorem ingest_decode_error_stale_witness:
  "ingest_iter None None \<lparr>sensor = initial_sensor_data, line_var = Some (lit ''1,2''), running = True\<rparr>
     (Readline [0xC0, 0xAF]) =
   (\<lparr>sensor = initial_sensor_data, line_var = Some (lit ''1,2''), running = True\<rparr>,
    [Print (NonNumeric (lit ''1,2''))])"
proof -
  have "utf8_decode [0xC0, 0xAF] = None"
    by (simp add: utf8_decode.simps utf8_char_def in_range_def)
  from ingest_decode_error_stale [OF this] show ?thesis by simp
qed

text \<open>
  C14. An exception of \<open>readline\<close> outside \<open>ValueError\<close> (a
  \<open>SerialException\<close> when the device disappears) is printed and followed by a
  one-second pause; the record and \<open>line\<close> are untouched and the loop goes on.
\<close>

theorem ingest_read_error:
  assumes "\<not> is_ValueError e"
  shows "ingest_iter cm im st (ReadRaises e) = (st, [Print (ReadError e), Sleep 1])"
proof -
  have "try_body cm im (line_var st) (ReadRaises e) = (Some e, line_var st, [])"
    by (simp add: try_body_def)
  with assms show ?thesis
    by (simp add: ingest_iter_result handle_exn_def)
qed

theorem ingest_read_error_witness:
  "ingest_iter None None \<lparr>sensor = initial_sensor_data, line_var = None, running = True\<rparr>
     (ReadRaises (SerialException (lit ''device disconnected''))) =
   (\<lparr>sensor = initial_sensor_data, line_var = None, running = True\<rparr>,
    [Print (ReadError (SerialException (lit ''device disconnected''))), Sleep 1])"
  using ingest_read_error [of "SerialException (lit ''device disconnected'')"] by simp

text \<open>
  C26. When the background thread survives: a running thread keeps running
  through a sequence of serial events exactly when \<open>line\<close> is already bound
  or no event before the first one that binds \<open>line\<close> raises into the
  \<open>except ValueError\<close> handler (an undecodable line, or a \<open>ValueError\<close> of
  \<open>readline\<close>). The spec's "runs for the lifetime of the process" holds
  only under this condition.
\<close>

theorem ingest_run_survives:
  assumes "running st"
  shows "running (fst (ingest_run cm im st evs)) \<longleftrightarrow>
           line_var st \<noteq> None \<or> (\<forall>ev \<in> set (takeWhile (\<lambda>ev. \<not> binds_line ev) evs). \<not> fatal_unbound ev)"
  using assms
proof (induction evs arbitrary: st)
  case Nil
  then show ?case by simp
next
  case (Cons ev evs)
  obtain st1 out1 where it: "ingest_iter cm im st ev = (st1, out1)" by fastforce
  have run: "running (fst (ingest_run cm im st (ev # evs))) = running (fst (ingest_run cm im st1 evs))"
    using ingest_run_Cons_running [OF Cons.prems it] by simp
  show ?case
  proof (cases "line_var st = None")
    case False
    with Cons.prems have "running (fst (ingest_run cm im st (ev # evs)))"
      by (intro ingest_run_bound) simp_all
    with False show ?thesis by simp
  next
    case unbound: True
    show ?thesis
    proof (cases "binds_line ev")
      case True
      with it Cons.prems have "line_var st1 \<noteq> None" "running st1"
        using ingest_iter_binds [OF True, of cm im st] by simp_all
      then have "running (fst (ingest_run cm im st1 evs))" by (rule ingest_run_bound)
      with run True show ?thesis by simp
    next
      case False
      with it unbound Cons.prems have st1: "line_var st1 = None" "running st1 = (\<not> fatal_unbound ev)"
        using ingest_iter_unbound [OF False unbound, of cm im] by simp_all
      show ?thesis
      proof (cases "fatal_unbound ev")
        case True
        with st1 run False unbound show ?thesis by simp
      next
        case nf: False
        with st1 Cons.IH [of st1] run False unbound show ?thesis by simp
      qed
    qed
  qed
qed

theorem ingest_run_survives_witness:
  "\<not> running (fst (ingest_run None None \<lparr>sensor = initial_sensor_data, line_var = None, running = True\<rparr>
     [ReadRaises (SerialException []), Readline [0xFF], Readline (utf8_encode (lit ''1,2,3''))]))"
proof -
  have "utf8_decode [0xFF] = None" by (simp add: utf8_decode.simps utf8_char_def in_range_def)
  moreover have "utf8_decode (utf8_encode (lit ''1,2,3'')) \<noteq> None" by (simp add: utf8_decode.simps model_defs)
  ultimately have "\<not> (\<forall>ev \<in> set (takeWhile (\<lambda>ev. \<not> binds_line ev)
      [ReadRaises (SerialException []), Readline [0xFF], Readline (utf8_encode (lit ''1,2,3''))]). \<not> fatal_unbound ev)"
    by (simp add: binds_line_def fatal_unbound_def)
  moreover have "running (fst (ingest_run None None \<lparr>sensor = initial_sensor_data, line_var = None, running = True\<rparr>
     [ReadRaises (SerialException []), Readline [0xFF], Readline (utf8_encode (lit ''1,2,3''))])) \<longleftrightarrow>
     line_var \<lparr>sensor = initial_sensor_data, line_var = None, running = True\<rparr> \<noteq> None \<or>
     (\<forall>ev \<in> set (takeWhile (\<lambda>ev. \<not> binds_line ev)
      [ReadRaises (SerialException []), Readline [0xFF], Readline (utf8_encode (lit ''1,2,3''))]). \<not> fatal_unbound ev)"
    by (rule ingest_run_survives) simp
  ultimately show ?thesis by (simp only:) simp
qed

text \<open>
  C15. When a prediction raises (scikit-learn raises \<open>ValueError\<close>, for
  instance when the names of the fitted columns differ from the three the
  frame is built with), the three readings have already been written and the
  two labels keep their previous values: the record pairs the new reading with
  a stale recommendation, and the line is reported as non-numeric data.
\<close>

theorem ingest_iter_predict_fails:
  assumes "utf8_decode bs = Some txt" and "py_split 44 (py_strip txt) = [a, b, c]"
    and "py_float a = Inr t" "py_float b = Inr h" "py_float c = Inr s"
    and "predict_one cm feature_columns [t, h, s] = Inl e" and "is_ValueError e"
  shows "ingest_iter (Some cm) (Some im) st (Readline bs) =
           (st\<lparr>sensor := (sensor st)\<lparr>temp := PyFloat t, hum := PyFloat h, soil := PyFloat s\<rparr>,
               line_var := Some (py_strip txt)\<rparr>, [Print (NonNumeric (py_strip txt))])"
proof -
  have "process_line (Some cm) (Some im) (py_strip txt) =
          (Some e, [(FTemp, PyFloat t), (FHum, PyFloat h), (FSoil, PyFloat s)])"
    using assms(2-6) by (rule process_line_predict_fails)
  with assms(7) show ?thesis
    by (simp add: ingest_iter_result [OF try_body_line [OF assms(1)]] handle_exn_def)
qed

theorem ingest_iter_predict_fails_witness:
  "ingest_iter
     (Some \<lparr>feature_names = feature_columns @ [lit ''SoilMoisture''], decide = \<lambda>row. Inr (PyStr (lit ''Wheat''))\<rparr>)
     (Some \<lparr>feature_names = feature_columns @ [lit ''SoilMoisture''], decide = \<lambda>row. Inr (PyStr (lit ''Yes''))\<rparr>)
     \<lparr>sensor = initial_sensor_data, line_var = None, running = True\<rparr>
     (Readline (utf8_encode (lit ''25.0,60.0,40.0''))) =
   (\<lparr>sensor = \<lparr>temp = PyFloat (Fin False 25), hum = PyFloat (Fin False 60),
               soil = PyFloat (Fin False 40), crop = PyStr (lit ''N/A''), advice = PyStr (lit ''N/A'')\<rparr>,
     line_var = Some (lit ''25.0,60.0,40.0''), running = True\<rparr>,
    [Print (NonNumeric (lit ''25.0,60.0,40.0''))])"
proof -
  have dec: "utf8_decode (utf8_encode (lit ''25.0,60.0,40.0'')) = Some (lit ''25.0,60.0,40.0'')"
    by (simp add: utf8_decode.simps model_defs)
  have strip: "py_strip (lit ''25.0,60.0,40.0'') = lit ''25.0,60.0,40.0''"
    by (simp add: model_defs)
  have split: "py_split 44 (py_strip (lit ''25.0,60.0,40.0'')) = [lit ''25.0'', lit ''60.0'', lit ''40.0'']"
    by (simp add: strip model_defs)
  have f: "py_float (lit ''25.0'') = Inr (Fin False 25)" "py_float (lit ''60.0'') = Inr (Fin False 60)"
    "py_float (lit ''40.0'') = Inr (Fin False 40)"
    by (simp_all add: model_defs)
  have p: "predict_one \<lparr>feature_names = feature_columns @ [lit ''SoilMoisture''], decide = \<lambda>row. Inr (PyStr (lit ''Wheat''))\<rparr>
             feature_columns [Fin False 25, Fin False 60, Fin False 40]
           = Inl (ValueError (lit ''The feature names should match those that were passed during fit.''))"
    by (simp add: predict_one_def)
  have v: "is_ValueError (ValueError (lit ''The feature names should match those that were passed during fit.''))"
    by simp
  show ?thesis
    using ingest_iter_predict_fails [OF dec split f p v,
        of "\<lparr>feature_names = feature_columns @ [lit ''SoilMoisture''], decide = \<lambda>row. Inr (PyStr (lit ''Yes''))\<rparr>"
           "\<lparr>sensor = initial_sensor_data, line_var = None, running = True\<rparr>", unfolded strip]
    by (simp add: initial_sensor_data_def)
qed

end
