(* ===== verification/System.thy ===== *)
theory System
  imports Ingest Query
begin

text \<open>
  The program as a whole: the module-level start-up of \<open>src/app.py\<close> and
  the two tasks that then run concurrently, the background thread
  \<open>read_arduino\<close> and the request handler of \<open>/data\<close>.

  Start-up (lines 12 to 18, 21 to 50, 54, 98 to 101, 114 to 115) is
  \<open>startup\<close>: it opens the serial port (\<open>open_serial\<close>), trains the two
  models (\<open>train_models\<close>), and, when it reaches the end, starts the thread
  if and only if the port opened and serves requests.

  The concurrent part is a transition system on \<open>sys\<close>: the shared
  dictionary, the thread's local \<open>line\<close>, and the thread's position
  \<open>pc\<close>. One iteration of the thread is split at the points where another
  thread can run in between under CPython's global interpreter lock: the
  \<open>try\<close> block up to the first item assignment (\<open>Begin\<close>: readline,
  decode, strip, split, float, predict, all of which touch no shared state, so
  their results are computed by \<open>try_body\<close> of \<open>Ingest\<close>), each item
  assignment \<open>sensor_data[k] = v\<close> (\<open>WriteNext\<close>, one atomic dictionary
  store each), and the exception handler (\<open>Finish\<close>). A request
  (\<open>Get\<close>) reads the dictionary in one step: \<open>json.dumps\<close> takes
  \<open>sorted(d.items())\<close>, which copies the items without running Python code
  and so without releasing the lock, and then encodes that copy.
\<close>

subsection \<open>Start-up\<close>

text \<open>Lines 12 to 18: \<open>serial.Serial('COM6', 9600, timeout=1)\<close> followed by a
  two-second sleep, or the message for a \<open>SerialException\<close>; any other
  exception is not caught and ends the program.\<close>

definition open_serial :: "exn + unit \<Rightarrow> exn + bool \<times> effect list" where
  "open_serial r =
     (case r of
        Inr _ \<Rightarrow> Inr (True, [Sleep 2])
      | Inl (SerialException m) \<Rightarrow> Inr (False, [Print (ArduinoConnectError m)])
      | Inl e \<Rightarrow> Inl e)"

datatype startup_result = Serving bool classifier classifier | StartupExit | StartupCrash exn

text \<open>The module body up to \<open>app.run\<close>: \<open>Serving p cm im\<close> means the web
  server runs, with the thread started exactly when \<open>p\<close>.\<close>

definition startup :: "exn + unit \<Rightarrow> exn + table \<Rightarrow> fitter \<Rightarrow> startup_result \<times> effect list" where
  "startup port csv fit =
     (case open_serial port of
        Inl e \<Rightarrow> (StartupCrash e, [])
      | Inr (has_port, out1) \<Rightarrow>
          (case train_models csv fit of
             (Trained cm im, out2) \<Rightarrow> (Serving has_port cm im, out1 @ out2)
           | (TrainingExit, out2) \<Rightarrow> (StartupExit, out1 @ out2)
           | (TrainingCrash e, out2) \<Rightarrow> (StartupCrash e, out1 @ out2)))"

subsection \<open>The concurrent system\<close>

datatype thread_pc = NotStarted | Idle | Writing "(field \<times> pyval) list" "exn option" | Stopped

record sys =
  shared :: sensor_data
  line_local :: "pystr option"
  pc :: thread_pc

datatype action = Begin serial_event | WriteNext | Finish | Get

text \<open>Line 54 and lines 98 to 101: the dictionary holds the placeholders and
  the thread is started only when the port opened.\<close>

definition initial_sys :: "bool \<Rightarrow> sys" where
  "initial_sys has_port =
     \<lparr>shared = initial_sensor_data, line_local = None, pc = (if has_port then Idle else NotStarted)\<rparr>"

text \<open>The state of \<open>Ingest\<close> the system is in between two iterations.\<close>

definition sys_abs :: "sys \<Rightarrow> ingest_state" where
  "sys_abs s = \<lparr>sensor = shared s, line_var = line_local s, running = (pc s \<noteq> Stopped \<and> pc s \<noteq> NotStarted)\<rparr>"

text \<open>One transition, \<open>None\<close> when the action is not enabled; \<open>Get\<close> returns the
  response of the request.\<close>

fun exec :: "classifier option \<Rightarrow> classifier option \<Rightarrow> sys \<Rightarrow> action \<Rightarrow> (sys \<times> response option) option"
  where
  "exec cm im s (Begin ev) =
     (case pc s of
        Idle \<Rightarrow> (case try_body cm im (line_local s) ev of
                   (exc, l, ws) \<Rightarrow> Some (s\<lparr>line_local := l, pc := Writing ws exc\<rparr>, None))
      | _ \<Rightarrow> None)"
| "exec cm im s WriteNext =
     (case pc s of
        Writing (w # ws) exc \<Rightarrow> Some (s\<lparr>shared := set_field (shared s) w, pc := Writing ws exc\<rparr>, None)
      | _ \<Rightarrow> None)"
| "exec cm im s Finish =
     (case pc s of
        Writing [] None \<Rightarrow> Some (s\<lparr>pc := Idle\<rparr>, None)
      | Writing [] (Some e) \<Rightarrow>
          Some (s\<lparr>pc := if running (fst (handle_exn e (sys_abs s))) then Idle else Stopped\<rparr>, None)
      | _ \<Rightarrow> None)"
| "exec cm im s Get = Some (s, Some (data_route (shared s)))"

fun run :: "classifier option \<Rightarrow> classifier option \<Rightarrow> sys \<Rightarrow> action list \<Rightarrow> (sys \<times> response list) option"
  where
  "run cm im s [] = Some (s, [])"
| "run cm im s (a # as) =
     (case exec cm im s a of
        None \<Rightarrow> None
      | Some (s1, r) \<Rightarrow>
          (case run cm im s1 as of
             None \<Rightarrow> None
           | Some (s2, rs) \<Rightarrow> Some (s2, (case r of None \<Rightarrow> [] | Some x \<Rightarrow> [x]) @ rs)))"

inductive reachable :: "classifier option \<Rightarrow> classifier option \<Rightarrow> bool \<Rightarrow> sys \<Rightarrow> bool"
  for cm im has_port where
  init: "reachable cm im has_port (initial_sys has_port)"
| step: "reachable cm im has_port s \<Longrightarrow> exec cm im s a = Some (s', r) \<Longrightarrow> reachable cm im has_port s'"

text \<open>The actions of one whole iteration on the serial event \<open>ev\<close> from state
  \<open>s\<close>: \<open>Begin\<close>, one \<open>WriteNext\<close> per item assignment, \<open>Finish\<close>.\<close>

definition iteration :: "classifier option \<Rightarrow> classifier option \<Rightarrow> sys \<Rightarrow> serial_event \<Rightarrow> action list" where
  "iteration cm im s ev =
     Begin ev # replicate (length (snd (snd (try_body cm im (line_local s) ev)))) WriteNext @ [Finish]"

subsection \<open>What the shared record may hold\<close>

text \<open>A reading is the placeholder 0 or a float; a label is the placeholder
  \<open>'N/A'\<close> or a value the classifier's decision function returns; a finite
  float is a binary64 value (\<open>float_ok\<close>).\<close>

definition float_ok :: "pyfloat \<Rightarrow> bool" where
  "float_ok f = (case f of Fin _ v \<Rightarrow> is_b64 v | _ \<Rightarrow> True)"

definition reading_ok :: "pyval \<Rightarrow> bool" where
  "reading_ok v = (case v of PyInt i \<Rightarrow> i = 0 | PyFloat f \<Rightarrow> float_ok f | _ \<Rightarrow> False)"

definition label_ok :: "classifier option \<Rightarrow> pyval \<Rightarrow> bool" where
  "label_ok m v = (v = PyStr (lit ''N/A'') \<or> (case m of None \<Rightarrow> False | Some c \<Rightarrow> \<exists>row. decide c row = Inr v))"

fun write_ok :: "classifier option \<Rightarrow> classifier option \<Rightarrow> field \<times> pyval \<Rightarrow> bool" where
  "write_ok cm im (FTemp, v) = reading_ok v"
| "write_ok cm im (FHum, v) = reading_ok v"
| "write_ok cm im (FSoil, v) = reading_ok v"
| "write_ok cm im (FCrop, v) = label_ok cm v"
| "write_ok cm im (FAdvice, v) = label_ok im v"

definition record_ok :: "classifier option \<Rightarrow> classifier option \<Rightarrow> sensor_data \<Rightarrow> bool" where
  "record_ok cm im d =
     (reading_ok (temp d) \<and> reading_ok (hum d) \<and> reading_ok (soil d) \<and> label_ok cm (crop d)
      \<and> label_ok im (advice d))"

definition sys_inv :: "classifier option \<Rightarrow> classifier option \<Rightarrow> sys \<Rightarrow> bool" where
  "sys_inv cm im s =
     (record_ok cm im (shared s) \<and> (case pc s of Writing ws _ \<Rightarrow> \<forall>w \<in> set ws. write_ok cm im w | _ \<Rightarrow> True))"

text \<open>Classifiers whose labels \<open>json.dumps\<close> can serialise (labels read from a
  text column are Python strings).\<close>

definition labels_serializable :: "classifier option \<Rightarrow> bool" where
  "labels_serializable m = (case m of None \<Rightarrow> True | Some c \<Rightarrow> \<forall>row v. decide c row = Inr v \<longrightarrow> json_serializable v)"

lemmas system_defs [model_defs] = open_serial_def startup_def initial_sys_def sys_abs_def iteration_def

subsection \<open>Lemmas\<close>

lemma run_append:
  "run cm im s (as @ bs) =
     (case run cm im s as of None \<Rightarrow> None
      | Some (s1, rs1) \<Rightarrow> map_option (\<lambda>(s2, rs2). (s2, rs1 @ rs2)) (run cm im s1 bs))"
  by (induction as arbitrary: s) (auto split: option.splits prod.splits simp: option.map_id)

lemma run_writes:
  "pc s = Writing ws exc \<Longrightarrow>
   run cm im s (replicate (length ws) WriteNext @ rest) =
   run cm im (s\<lparr>shared := apply_writes (shared s) ws, pc := Writing [] exc\<rparr>) rest"
proof (induction ws arbitrary: s)
  case Nil
  then have "s\<lparr>shared := apply_writes (shared s) [], pc := Writing [] exc\<rparr> = s"
    by (cases s) simp
  then show ?case by simp
next
  case (Cons w ws)
  have "exec cm im s WriteNext = Some (s\<lparr>shared := set_field (shared s) w, pc := Writing ws exc\<rparr>, None)"
    using Cons.prems by simp
  with Cons.IH [of "s\<lparr>shared := set_field (shared s) w, pc := Writing ws exc\<rparr>"] show ?case
    by (simp split: option.splits prod.splits)
qed

lemma handle_exn_cases: "fst (handle_exn e st) = st \<or> fst (handle_exn e st) = st\<lparr>running := False\<rparr>"
  by (simp add: handle_exn_def split: option.splits)

lemma try_body_valid:
  assumes "utf8_decode bs = Some txt" and "py_split 44 (py_strip txt) = [a, b, c]"
    and "py_float a = Inr t" "py_float b = Inr h" "py_float c = Inr s"
    and "predict_one cm feature_columns [t, h, s] = Inr lc"
    and "predict_one im feature_columns [t, h, s] = Inr la"
  shows "try_body (Some cm) (Some im) l (Readline bs) =
           (None, Some (py_strip txt),
            [(FTemp, PyFloat t), (FHum, PyFloat h), (FSoil, PyFloat s), (FCrop, lc), (FAdvice, la)])"
  using process_line_valid [OF assms(2-7)] by (simp add: try_body_line [OF assms(1)])

lemma reachable_no_port: "reachable cm im False s \<Longrightarrow> shared s = initial_sensor_data \<and> pc s = NotStarted"
proof (induction rule: reachable.induct)
  case init
  then show ?case by (simp add: initial_sys_def)
next
  case (step s a s' r)
  then show ?case by (cases a) auto
qed

lemma startup_Serving:
  "startup port csv fit = (Serving hp cm im, out) \<Longrightarrow> \<exists>out2. train_models csv fit = (Trained cm im, out2)"
  by (auto simp: startup_def split: sum.splits prod.splits training.splits)

lemma startup_port_fails:
  "startup (Inl (SerialException m)) csv fit = (Serving hp cm im, out) \<Longrightarrow> \<not> hp"
  by (auto simp: startup_def open_serial_def split: prod.splits training.splits)

lemma reading_ok_float [simp]: "reading_ok (PyFloat f) = float_ok f"
  by (simp add: reading_ok_def)

lemma py_float_ok: "py_float x = Inr f \<Longrightarrow> float_ok f"
  by (cases f) (auto simp: float_ok_def dest: py_float_b64)

lemma parse_fields_ok: "parse_fields fs = Inr row \<Longrightarrow> list_all float_ok row \<and> length row = length fs"
  by (induction fs arbitrary: row) (auto split: sum.splits dest: py_float_ok)

lemma try_body_writes_ok:
  "\<forall>w \<in> set (snd (snd (try_body cm im l ev))). write_ok cm im w"
proof -
  have pw: "\<forall>w \<in> set (snd (predict_writes cm im row)). write_ok cm im w" for row
    by (auto simp: predict_writes_def predict_one_def label_ok_def split: option.splits sum.splits if_splits)
  have "\<forall>w \<in> set (snd (process_line cm im l')). write_ok cm im w" for l'
  proof (cases "parse_fields (py_split 44 l')")
    case (Inl e)
    then show ?thesis by (simp add: process_line_def)
  next
    case (Inr row)
    show ?thesis
    proof (cases "l' = [] \<or> length (py_split 44 l') \<noteq> 3")
      case True
      then show ?thesis by (auto simp: process_line_def)
    next
      case False
      then have "list_all float_ok row" "length row = 3" using parse_fields_ok [OF Inr] by simp_all
      then have "float_ok (row ! 0)" "float_ok (row ! 1)" "float_ok (row ! 2)" by (simp_all add: list_all_length)
      with Inr False pw show ?thesis
        by (auto simp: process_line_def split: prod.splits) (metis snd_conv)+
    qed
  qed
  then show ?thesis
    by (auto simp: try_body_def split: serial_event.splits option.splits prod.splits) (metis snd_conv)+
qed

lemma record_ok_set_field:
  assumes "record_ok cm im d" "write_ok cm im w"
  shows "record_ok cm im (set_field d w)"
proof (cases w)
  case (Pair f v)
  with assms show ?thesis by (cases f) (simp_all add: record_ok_def)
qed

lemma sys_inv_reachable: "reachable cm im hp s \<Longrightarrow> sys_inv cm im s"
proof (induction rule: reachable.induct)
  case init
  then show ?case
    by (simp add: initial_sys_def sys_inv_def record_ok_def initial_sensor_data_def reading_ok_def label_ok_def)
next
  case (step s a s' r)
  then show ?case
  proof (cases a)
    case (Begin ev)
    with step show ?thesis
      using try_body_writes_ok [of cm im "line_local s" ev]
      by (auto simp: sys_inv_def split: thread_pc.splits prod.splits)
  next
    case WriteNext
    with step show ?thesis
      by (auto simp: sys_inv_def record_ok_set_field split: thread_pc.splits list.splits)
  next
    case Finish
    with step show ?thesis
      by (auto simp: sys_inv_def split: thread_pc.splits list.splits option.splits if_splits)
  next
    case Get
    with step show ?thesis by auto
  qed
qed

lemma record_ok_serializable:
  "record_ok cm im d \<Longrightarrow> labels_serializable cm \<Longrightarrow> labels_serializable im \<Longrightarrow> json_serializable (get_field d f)"
  by (cases f)
     (auto simp: record_ok_def reading_ok_def label_ok_def labels_serializable_def
        split: pyval.splits option.splits)

lemma reachable_data_route_ok:
  assumes "reachable cm im hp s" and "labels_serializable cm" and "labels_serializable im"
  shows "\<exists>j. data_route (shared s) = JsonResponse j"
proof -
  have ok: "record_ok cm im (shared s)"
    using sys_inv_reachable [OF assms(1)] by (simp add: sys_inv_def)
  have iff: "(\<exists>kv \<in> set (dict_items (shared s)). \<not> json_serializable (snd kv))
              \<longleftrightarrow> (\<exists>f. \<not> json_serializable (get_field (shared s) f))"
    by (rule set_dict_items)
  have "\<forall>f. json_serializable (get_field (shared s) f)"
    using record_ok_serializable [OF ok assms(2,3)] by simp
  with iff have "\<not> (\<exists>kv \<in> set (dict_items (shared s)). \<not> json_serializable (snd kv))"
    by simp
  moreover have "set (sort_key fst (dict_items (shared s))) = set (dict_items (shared s))"
    by simp
  ultimately have "\<not> (\<exists>e. encode_items (sort_key fst (dict_items (shared s))) = Inl e)"
    by (simp only: encode_items_Inl not_False_eq_True)
  then obtain j where "encode_items (sort_key fst (dict_items (shared s))) = Inr j"
    by (cases "encode_items (sort_key fst (dict_items (shared s)))") auto
  then show ?thesis by (simp add: data_route_def to_json_def)
qed

subsection \<open>Properties of the whole program\<close>

text \<open>
  C7. Refinement of the ingest model: from a state between two iterations, the
  fine-grained steps of one iteration (\<open>Begin\<close>, one store per item
  assignment, \<open>Finish\<close>) are all enabled, answer no request, and end in the
  state \<open>ingest_iter\<close> of \<open>Ingest\<close> computes, with the thread between
  iterations again or stopped.
\<close>

theorem iteration_refines:
  assumes "pc s = Idle"
  shows "\<exists>s'. run cm im s (iteration cm im s ev) = Some (s', [])
              \<and> sys_abs s' = fst (ingest_iter cm im (sys_abs s) ev) \<and> (pc s' = Idle \<or> pc s' = Stopped)"
proof -
  obtain exc l ws where tb: "try_body cm im (line_local s) ev = (exc, l, ws)" by (cases "try_body cm im (line_local s) ev") auto
  let ?s1 = "s\<lparr>line_local := l, pc := Writing ws exc\<rparr>"
  let ?s2 = "?s1\<lparr>shared := apply_writes (shared ?s1) ws, pc := Writing [] exc\<rparr>"
  have b0: "exec cm im s (Begin ev) = Some (?s1, None)" using assms tb by simp
  have it: "iteration cm im s ev = Begin ev # replicate (length ws) WriteNext @ [Finish]"
    by (simp add: iteration_def tb)
  have w: "run cm im ?s1 (replicate (length ws) WriteNext @ [Finish]) = run cm im ?s2 [Finish]"
    by (rule run_writes) simp
  have abs2: "sys_abs ?s2 = (sys_abs s)\<lparr>sensor := apply_writes (sensor (sys_abs s)) ws, line_var := l\<rparr>"
    using assms by (simp add: sys_abs_def)
  have ii: "ingest_iter cm im (sys_abs s) ev =
     (case exc of None \<Rightarrow> (sys_abs ?s2, []) | Some e \<Rightarrow> handle_exn e (sys_abs ?s2))"
  proof -
    have "try_body cm im (line_var (sys_abs s)) ev = (exc, l, ws)" using tb by (simp add: sys_abs_def)
    then show ?thesis unfolding abs2 by (rule ingest_iter_result)
  qed
  show ?thesis
  proof (cases exc)
    case None
    then show ?thesis
      using b0 w ii assms by (simp add: it sys_abs_def)
  next
    case (Some e)
    from handle_exn_cases [of e "sys_abs ?s2"] show ?thesis
      using b0 w ii assms Some by (auto simp: it sys_abs_def)
  qed
qed

theorem iteration_refines_witness:
  "\<exists>s'. run (Some \<lparr>feature_names = feature_columns, decide = \<lambda>row. Inr (PyStr (lit ''Wheat''))\<rparr>) (Some \<lparr>feature_names = feature_columns, decide = \<lambda>row. Inr (PyStr (lit ''Yes''))\<rparr>) (initial_sys True) (iteration (Some \<lparr>feature_names = feature_columns, decide = \<lambda>row. Inr (PyStr (lit ''Wheat''))\<rparr>) (Some \<lparr>feature_names = feature_columns, decide = \<lambda>row. Inr (PyStr (lit ''Yes''))\<rparr>) (initial_sys True) (Readline (utf8_encode (lit ''25.0,60.0,40.0''))))
          = Some (s', [])
        \<and> shared s' = \<lparr>temp = PyFloat (Fin False 25), hum = PyFloat (Fin False 60), soil = PyFloat (Fin False 40),
                       crop = PyStr (lit ''Wheat''), advice = PyStr (lit ''Yes'')\<rparr>"
proof -
  have dec: "utf8_decode (utf8_encode (lit ''25.0,60.0,40.0'')) = Some (lit ''25.0,60.0,40.0'')"
    by (simp add: utf8_decode.simps model_defs)
  have strip: "py_strip (lit ''25.0,60.0,40.0'') = lit ''25.0,60.0,40.0''"
    by (simp add: model_defs)
  have split: "py_split 44 (py_strip (lit ''25.0,60.0,40.0'')) = [lit ''25.0'', lit ''60.0'', lit ''40.0'']"
    by (simp add: strip model_defs)
  have f: "py_float (lit ''25.0'') = Inr (Fin False 25)" "py_float (lit ''60.0'') = Inr (Fin False 60)"
    "py_float (lit ''40.0'') = Inr (Fin False 40)"
    by (simp_all add: model_defs)
  have p: "predict_one \<lparr>feature_names = feature_columns, decide = \<lambda>row. Inr (PyStr (lit ''Wheat''))\<rparr> feature_columns [Fin False 25, Fin False 60, Fin False 40] = Inr (PyStr (lit ''Wheat''))"
    "predict_one \<lparr>feature_names = feature_columns, decide = \<lambda>row. Inr (PyStr (lit ''Yes''))\<rparr> feature_columns [Fin False 25, Fin False 60, Fin False 40] = Inr (PyStr (lit ''Yes''))"
    by (simp_all add: predict_one_def)
  have "pc (initial_sys True) = Idle" by (simp add: initial_sys_def)
  from iteration_refines [OF this] obtain s' where
    s': "run (Some \<lparr>feature_names = feature_columns, decide = \<lambda>row. Inr (PyStr (lit ''Wheat''))\<rparr>) (Some \<lparr>feature_names = feature_columns, decide = \<lambda>row. Inr (PyStr (lit ''Yes''))\<rparr>) (initial_sys True) (iteration (Some \<lparr>feature_names = feature_columns, decide = \<lambda>row. Inr (PyStr (lit ''Wheat''))\<rparr>) (Some \<lparr>feature_names = feature_columns, decide = \<lambda>row. Inr (PyStr (lit ''Yes''))\<rparr>) (initial_sys True) (Readline (utf8_encode (lit ''25.0,60.0,40.0'')))) = Some (s', [])"
        "sys_abs s' = fst (ingest_iter (Some \<lparr>feature_names = feature_columns, decide = \<lambda>row. Inr (PyStr (lit ''Wheat''))\<rparr>) (Some \<lparr>feature_names = feature_columns, decide = \<lambda>row. Inr (PyStr (lit ''Yes''))\<rparr>) (sys_abs (initial_sys True)) (Readline (utf8_encode (lit ''25.0,60.0,40.0''))))"
    by blast
  have "shared s' = sensor (fst (ingest_iter (Some \<lparr>feature_names = feature_columns, decide = \<lambda>row. Inr (PyStr (lit ''Wheat''))\<rparr>) (Some \<lparr>feature_names = feature_columns, decide = \<lambda>row. Inr (PyStr (lit ''Yes''))\<rparr>) (sys_abs (initial_sys True)) (Readline (utf8_encode (lit ''25.0,60.0,40.0'')))))"
    using s'(2) by (metis ingest_state.select_convs(1) sys_abs_def)
  also have "\<dots> = apply_writes (sensor (sys_abs (initial_sys True)))
       [(FTemp, PyFloat (Fin False 25)), (FHum, PyFloat (Fin False 60)), (FSoil, PyFloat (Fin False 40)),
        (FCrop, PyStr (lit ''Wheat'')), (FAdvice, PyStr (lit ''Yes''))]"
    using try_body_valid [OF dec split f p] by (simp add: ingest_iter_sensor strip)
  finally show ?thesis using s'(1)
    by (simp add: sys_abs_def initial_sys_def initial_sensor_data_def)
qed

text \<open>
  C4. The record is not replaced atomically: a request served after the three
  readings of a valid line have been stored and before the two predictions
  are sees the new reading with the previous crop and advice, a record that
  was never published as a whole (the spec requires an atomic replace).
\<close>

theorem torn_read:
  assumes "pc st = Idle"
    and "utf8_decode bs = Some txt" and "py_split 44 (py_strip txt) = [a, b, c]"
    and "py_float a = Inr t" "py_float b = Inr h" "py_float c = Inr s"
    and "predict_one cm feature_columns [t, h, s] = Inr lc"
    and "predict_one im feature_columns [t, h, s] = Inr la"
  shows "\<exists>st'. run (Some cm) (Some im) st [Begin (Readline bs), WriteNext, WriteNext, WriteNext, Get] =
           Some (st', [data_route ((shared st)\<lparr>temp := PyFloat t, hum := PyFloat h, soil := PyFloat s\<rparr>)])"
  using assms(1) try_body_valid [OF assms(2-8), of "line_local st"] by simp

theorem torn_read_witness:
  "\<exists>st'. run (Some \<lparr>feature_names = feature_columns, decide = \<lambda>row. Inr (PyStr (lit ''Wheat''))\<rparr>) (Some \<lparr>feature_names = feature_columns, decide = \<lambda>row. Inr (PyStr (lit ''Yes''))\<rparr>) (initial_sys True) [Begin (Readline (utf8_encode (lit ''25.0,60.0,40.0''))), WriteNext, WriteNext, WriteNext, Get] =
     Some (st', [JsonResponse (JObject [(lit ''advice'', JString (lit ''N/A'')), (lit ''crop'', JString (lit ''N/A'')),
                  (lit ''hum'', JFloat (Fin False 60)), (lit ''soil'', JFloat (Fin False 40)),
                  (lit ''temp'', JFloat (Fin False 25))])])"
proof -
  have dec: "utf8_decode (utf8_encode (lit ''25.0,60.0,40.0'')) = Some (lit ''25.0,60.0,40.0'')"
    by (simp add: utf8_decode.simps model_defs)
  have strip: "py_strip (lit ''25.0,60.0,40.0'') = lit ''25.0,60.0,40.0''"
    by (simp add: model_defs)
  have split: "py_split 44 (py_strip (lit ''25.0,60.0,40.0'')) = [lit ''25.0'', lit ''60.0'', lit ''40.0'']"
    by (simp add: strip model_defs)
  have f: "py_float (lit ''25.0'') = Inr (Fin False 25)" "py_float (lit ''60.0'') = Inr (Fin False 60)"
    "py_float (lit ''40.0'') = Inr (Fin False 40)"
    by (simp_all add: model_defs)
  have p: "predict_one \<lparr>feature_names = feature_columns, decide = \<lambda>row. Inr (PyStr (lit ''Wheat''))\<rparr> feature_columns [Fin False 25, Fin False 60, Fin False 40] = Inr (PyStr (lit ''Wheat''))"
    "predict_one \<lparr>feature_names = feature_columns, decide = \<lambda>row. Inr (PyStr (lit ''Yes''))\<rparr> feature_columns [Fin False 25, Fin False 60, Fin False 40] = Inr (PyStr (lit ''Yes''))"
    by (simp_all add: predict_one_def)
  have "pc (initial_sys True) = Idle" by (simp add: initial_sys_def)
  from torn_read [OF this dec split f p] show ?thesis
    by (simp add: initial_sys_def initial_sensor_data_def data_route_def to_json_def sort_dict_items)
qed

text \<open>
  C8. If the serial port cannot be opened at start-up, the thread is never
  started and every request, in every reachable state, answers the
  placeholder record.
\<close>

theorem no_port_placeholder:
  assumes "startup (Inl (SerialException m)) csv fit = (Serving hp cm im, out)"
    and "reachable (Some cm) (Some im) hp s"
  shows "data_route (shared s) = data_route initial_sensor_data"
proof -
  have "\<not> hp" using assms(1) by (rule startup_port_fails)
  with assms(2) have "reachable (Some cm) (Some im) False s" by simp
  then show ?thesis using reachable_no_port by simp
qed

theorem no_port_placeholder_witness:
  "startup (Inl (SerialException (lit ''could not open port''))) (Inr \<lparr>header = feature_columns @ [crop_column, irrigation_column], cells = []\<rparr>)
      (\<lambda>t a b. Inr (\<lambda>row. Inr (PyStr (lit ''Wheat''))))
     = (Serving False \<lparr>feature_names = feature_columns, decide = \<lambda>row. Inr (PyStr (lit ''Wheat''))\<rparr> \<lparr>feature_names = feature_columns, decide = \<lambda>row. Inr (PyStr (lit ''Wheat''))\<rparr>, [Print (ArduinoConnectError (lit ''could not open port''))])
   \<and> data_route (shared (initial_sys False)) = data_route initial_sensor_data"
proof -
  have st: "startup (Inl (SerialException (lit ''could not open port''))) (Inr \<lparr>header = feature_columns @ [crop_column, irrigation_column], cells = []\<rparr>)
      (\<lambda>t a b. Inr (\<lambda>row. Inr (PyStr (lit ''Wheat''))))
     = (Serving False \<lparr>feature_names = feature_columns, decide = \<lambda>row. Inr (PyStr (lit ''Wheat''))\<rparr> \<lparr>feature_names = feature_columns, decide = \<lambda>row. Inr (PyStr (lit ''Wheat''))\<rparr>, [Print (ArduinoConnectError (lit ''could not open port''))])"
    by (simp add: model_defs)
  have "reachable (Some \<lparr>feature_names = feature_columns, decide = \<lambda>row. Inr (PyStr (lit ''Wheat''))\<rparr>) (Some \<lparr>feature_names = feature_columns, decide = \<lambda>row. Inr (PyStr (lit ''Wheat''))\<rparr>) False (initial_sys False)" by (rule reachable.init)
  with no_port_placeholder [OF st] st show ?thesis by simp
qed

text \<open>
  A missing dataset file ends the program during start-up, after the
  serial port was opened and before any request is served.
\<close>

theorem startup_dataset_missing:
  assumes "open_serial port = Inr (hp, out)"
  shows "startup port (Inl FileNotFoundError) fit = (StartupExit, out @ [Print DatasetNotFound])"
  using assms by (simp add: startup_def train_models_def)

theorem startup_dataset_missing_witness:
  "startup (Inr ()) (Inl FileNotFoundError) (\<lambda>t a b. Inr (\<lambda>row. Inr (PyStr (lit ''Wheat''))))
     = (StartupExit, [Sleep 2, Print DatasetNotFound])"
proof -
  have "open_serial (Inr ()) = Inr (True, [Sleep 2])" by (simp add: open_serial_def)
  from startup_dataset_missing [OF this] show ?thesis by simp
qed

text \<open>
  C20. Invariant of the concurrent system: in every reachable state each reading
  of the shared record is the placeholder 0 or a float whose finite value is
  a binary64 value (as \<open>float()\<close> returns), and each label is the
  placeholder \<open>'N/A'\<close> or a value its classifier returns.
\<close>

theorem reachable_record_ok:
  assumes "reachable cm im hp s"
  shows "record_ok cm im (shared s)"
  using sys_inv_reachable [OF assms] by (simp add: sys_inv_def)

theorem reachable_record_ok_witness:
  "record_ok (Some \<lparr>feature_names = feature_columns, decide = \<lambda>row. Inr (PyStr (lit ''Wheat''))\<rparr>) (Some \<lparr>feature_names = feature_columns, decide = \<lambda>row. Inr (PyStr (lit ''Yes''))\<rparr>) (shared (initial_sys True))"
  by (rule reachable_record_ok) (rule reachable.init)

text \<open>
  C23. When both classifiers return labels \<open>json.dumps\<close> can serialise (the
  labels of a text column), every request in every reachable state, torn
  records included, answers \<open>200\<close>.
\<close>

theorem reachable_data_ok:
  assumes "reachable cm im hp s" and "labels_serializable cm" and "labels_serializable im"
  shows "status (data_route (shared s)) = 200"
  using reachable_data_route_ok [OF assms] by (auto simp: status_def)

theorem reachable_data_ok_witness:
  "status (data_route (shared (initial_sys True))) = 200"
proof -
  have "labels_serializable (Some \<lparr>feature_names = feature_columns, decide = \<lambda>row. Inr (PyStr (lit ''Wheat''))\<rparr>)" "labels_serializable (Some \<lparr>feature_names = feature_columns, decide = \<lambda>row. Inr (PyStr (lit ''Yes''))\<rparr>)"
    by (simp_all add: labels_serializable_def)
  with reachable.init show ?thesis by (rule reachable_data_ok)
qed

end
