(* ===== verification/Server.thy ===== *)
theory Server
  imports Query System
begin

text \<open>
  The web layer of \<open>src/app.py\<close>: the Flask application of line 8, its two
  routes, \<open>index\<close> (lines 104 to 107) and \<open>data\<close> (lines 109 to 112), and
  the development server that \<open>app.run(debug=True, use_reloader=False)\<close>
  starts at line 115 when the file runs as a script. Flask and Werkzeug are
  libraries the program calls; what they do for these two routes is modelled
  from their documented behaviour:
  \<^item> URL matching (\<open>MapAdapter.match\<close> of Werkzeug): the leading slashes of
    the request path collapse to one (\<open>path_part\<close>); a rule matches its
    exact path; a matched path whose rule does not allow the method answers
    \<open>405\<close> with the rule's methods; a path that lacks only the trailing slash
    of a rule redirects to it (\<open>strict_slashes\<close>); otherwise the path with
    each pair of slashes merged (\<open>merge_slashes\<close>) redirects with \<open>308\<close>
    when it matches; anything else is \<open>404\<close>.
  \<^item> \<open>app.route\<close> gives a rule the methods \<open>GET\<close>, \<open>HEAD\<close> (added for
    \<open>GET\<close>) and \<open>OPTIONS\<close> (Flask's automatic options); Flask answers an
    \<open>OPTIONS\<close> request itself with the allowed methods, a \<open>HEAD\<close> request
    runs the \<open>GET\<close> view and the server sends no body. The request method is
    upper-cased before matching.
  \<^item> an exception raised in a view is answered with \<open>500\<close>: in debug mode
    Flask propagates it and the Werkzeug debugger renders its traceback page.
  \<^item> \<open>render_template('index.html')\<close> looks the name up in the
    application's \<open>templates\<close> folder and raises \<open>TemplateNotFound\<close> when
    it is absent; the template store is the parameter \<open>tpl\<close> (what a
    present template renders to, or the error its rendering raises), since
    the folder is not part of the Python source.
  \<^item> \<open>debug=True\<close> makes Flask's JSON provider indent its output, so the
    body of \<open>/data\<close> is the pretty form of \<open>Query.json_text\<close>.
\<close>

subsection \<open>Routing\<close>

record request =
  request_method :: pystr
  path_info :: pystr

datatype endpoint = Index | Data

text \<open>\<open>app.url_map\<close> after the decorators of lines 104 and 109.\<close>

definition url_rules :: "(pystr \<times> endpoint) list" where
  "url_rules = [(lit ''/'', Index), (lit ''/data'', Data)]"

definition rule_methods :: "pystr list" where
  "rule_methods = [lit ''GET'', lit ''HEAD'', lit ''OPTIONS'']"

definition ascii_upper :: "codepoint \<Rightarrow> codepoint" where
  "ascii_upper c = (if 97 \<le> c \<and> c \<le> 122 then c - 32 else c)"

text \<open>\<open>f"/{path_info.lstrip('/')}" if path_info else ""\<close>.\<close>

definition path_part :: "pystr \<Rightarrow> pystr" where
  "path_part p = (if p = [] then [] else 47 # dropWhile (\<lambda>c. c = 47) p)"

text \<open>\<open>re.sub("/{2,}?", "/", path)\<close>: each pair of slashes, from the left,
  becomes one slash.\<close>

fun merge_slashes :: "pystr \<Rightarrow> pystr" where
  "merge_slashes [] = []"
| "merge_slashes (c # cs) =
     (case cs of
        d # ds \<Rightarrow> if c = 47 \<and> d = 47 then 47 # merge_slashes ds else c # merge_slashes cs
      | [] \<Rightarrow> [c])"

datatype route = Endpoint endpoint | RequestRedirect pystr | NotFound | MethodNotAllowed "pystr list"

definition match_path :: "pystr \<Rightarrow> pystr \<Rightarrow> route option" where
  "match_path p m =
     map_option (\<lambda>ep. if m \<in> set rule_methods then Endpoint ep else MethodNotAllowed rule_methods)
       (map_of url_rules p)"

definition match_url :: "pystr \<Rightarrow> pystr \<Rightarrow> route" where
  "match_url p m =
     (case match_path p m of
        Some r \<Rightarrow> r
      | None \<Rightarrow>
          if map_of url_rules (p @ [47]) \<noteq> None \<and> m \<in> set rule_methods then RequestRedirect (p @ [47])
          else (case match_path (merge_slashes p) m of
                  Some (Endpoint ep) \<Rightarrow> RequestRedirect (merge_slashes p)
                | Some r \<Rightarrow> r
                | None \<Rightarrow> NotFound))"

subsection \<open>The views and the dispatch\<close>

type_synonym templates = "pystr \<Rightarrow> (exn + pystr) option"

definition render_template :: "templates \<Rightarrow> pystr \<Rightarrow> exn + pystr" where
  "render_template tpl name = (case tpl name of None \<Rightarrow> Inl (TemplateNotFound name) | Some r \<Rightarrow> r)"

definition index :: "templates \<Rightarrow> exn + pystr" where
  "index tpl = render_template tpl (lit ''index.html'')"

datatype reply =
    HtmlPage pystr
  | JsonBody json
  | OptionsReply "pystr list"
  | Redirect pystr
  | NotFoundPage
  | NotAllowedPage "pystr list"
  | DebuggerPage exn

fun reply_code :: "reply \<Rightarrow> nat" where
  "reply_code (HtmlPage _) = 200"
| "reply_code (JsonBody _) = 200"
| "reply_code (OptionsReply _) = 200"
| "reply_code (Redirect _) = 308"
| "reply_code NotFoundPage = 404"
| "reply_code (NotAllowedPage _) = 405"
| "reply_code (DebuggerPage _) = 500"

definition view :: "templates \<Rightarrow> sensor_data \<Rightarrow> endpoint \<Rightarrow> reply" where
  "view tpl d ep =
     (case ep of
        Index \<Rightarrow> (case index tpl of Inl e \<Rightarrow> DebuggerPage e | Inr page \<Rightarrow> HtmlPage page)
      | Data \<Rightarrow> (case data_route d of JsonResponse j \<Rightarrow> JsonBody j | InternalServerError e \<Rightarrow> DebuggerPage e))"

definition dispatch :: "templates \<Rightarrow> sensor_data \<Rightarrow> request \<Rightarrow> reply" where
  "dispatch tpl d rq =
     (let m = map ascii_upper (request_method rq)
      in case match_url (path_part (path_info rq)) m of
           NotFound \<Rightarrow> NotFoundPage
         | MethodNotAllowed ms \<Rightarrow> NotAllowedPage ms
         | RequestRedirect p \<Rightarrow> Redirect p
         | Endpoint ep \<Rightarrow> if m = lit ''OPTIONS'' then OptionsReply rule_methods else view tpl d ep)"

text \<open>The body the server sends: none for \<open>HEAD\<close>, the page or the JSON text
  otherwise; \<open>None\<close> stands for Werkzeug's own HTML pages (redirect, errors,
  the debugger), whose text is not modelled.\<close>

definition body_text :: "bool \<Rightarrow> (bool \<Rightarrow> rat \<Rightarrow> pystr) \<Rightarrow> pystr \<Rightarrow> reply \<Rightarrow> pystr option" where
  "body_text pretty fr m r =
     (if m = lit ''HEAD'' then Some []
      else case r of
             HtmlPage page \<Rightarrow> Some page
           | JsonBody j \<Rightarrow> response_body pretty fr (JsonResponse j)
           | OptionsReply _ \<Rightarrow> Some []
           | _ \<Rightarrow> None)"

subsection \<open>The server of line 115\<close>

record run_config =
  host :: pystr
  port_number :: nat
  debug :: bool
  use_reloader :: bool
  use_debugger :: bool
  threaded :: bool

text \<open>\<open>app.run(debug=True, use_reloader=False)\<close>: Flask's defaults fill in
  the host, the port, the debugger (on with \<open>debug\<close>) and a thread per
  request.\<close>

definition app_run :: run_config where
  "app_run = \<lparr>host = lit ''127.0.0.1'', port_number = 5000, debug = True, use_reloader = False,
              use_debugger = True, threaded = True\<rparr>"

text \<open>Line 114: the server starts only when the module runs as a script and the
  module body reached it.\<close>

definition main :: "bool \<Rightarrow> startup_result \<Rightarrow> run_config option" where
  "main is_main st = (case st of Serving _ _ _ \<Rightarrow> if is_main then Some app_run else None | _ \<Rightarrow> None)"

definition serve :: "run_config \<Rightarrow> templates \<Rightarrow> (bool \<Rightarrow> rat \<Rightarrow> pystr) \<Rightarrow> sensor_data \<Rightarrow> request \<Rightarrow> nat \<times> pystr option" where
  "serve cfg tpl fr d rq =
     (let r = dispatch tpl d rq in (reply_code r, body_text (debug cfg) fr (map ascii_upper (request_method rq)) r))"

lemmas server_defs [model_defs] = url_rules_def rule_methods_def path_part_def match_path_def match_url_def
  render_template_def index_def view_def dispatch_def body_text_def app_run_def main_def serve_def

subsection \<open>Lemmas\<close>

lemma map_of_url_rules:
  "map_of url_rules p = (if p = lit ''/'' then Some Index else if p = lit ''/data'' then Some Data else None)"
  by (simp add: url_rules_def)

lemma set_merge_slashes [simp]: "set (merge_slashes p) = set p"
  by (induction p rule: merge_slashes.induct) (auto split: list.splits)

lemma merge_slashes_Nil_iff [simp]: "merge_slashes p = [] \<longleftrightarrow> p = []"
  by (cases p) (auto split: list.splits)

lemma merge_slashes_id: "47 \<notin> set p \<Longrightarrow> merge_slashes p = p"
proof (induction p rule: merge_slashes.induct)
  case (2 c cs)
  then show ?case by (cases cs) simp_all
qed simp

lemma path_part_Nil_iff [simp]: "path_part p = [] \<longleftrightarrow> p = []"
  by (simp add: path_part_def)

lemma path_part_shape:
  assumes "p \<noteq> []"
  obtains r where "path_part p = 47 # r" and "merge_slashes (path_part p) = 47 # merge_slashes r"
proof -
  define r where "r = dropWhile (\<lambda>c. c = 47) p"
  have "merge_slashes (47 # r) = 47 # merge_slashes r"
  proof (cases r)
    case (Cons c cs)
    have "c \<noteq> 47" using dropWhile_hd_not [of "\<lambda>c. c = 47" p c cs] Cons by (simp add: r_def)
    with Cons show ?thesis by simp
  qed simp
  moreover have "path_part p = 47 # r" using assms by (simp add: path_part_def r_def)
  ultimately show ?thesis using that by simp
qed

text \<open>Slash merging never produces a rule's path out of a collapsed path that is
  not already that path: with these rules, Werkzeug redirects only the empty
  path.\<close>

lemma merge_path_part:
  assumes "merge_slashes (path_part p) \<in> {lit ''/'', lit ''/data''}"
  shows "path_part p = merge_slashes (path_part p)"
proof -
  have "p \<noteq> []" using assms by (auto simp: path_part_def)
  then obtain r where r: "path_part p = 47 # r" "merge_slashes (path_part p) = 47 # merge_slashes r"
    by (rule path_part_shape)
  with assms have "merge_slashes r = [] \<or> merge_slashes r = lit ''data''" by auto
  then have "merge_slashes r = r"
  proof
    assume "merge_slashes r = lit ''data''"
    then have "set r = set (lit ''data'')" using set_merge_slashes [of r] by simp
    then have "47 \<notin> set r" by simp
    then show ?thesis by (rule merge_slashes_id)
  qed simp
  with r show ?thesis by simp
qed

lemma match_url_path_part:
  assumes "p \<noteq> []"
  shows "match_url (path_part p) m =
           (case map_of url_rules (path_part p) of
              None \<Rightarrow> NotFound
            | Some ep \<Rightarrow> if m \<in> set rule_methods then Endpoint ep else MethodNotAllowed rule_methods)"
proof (cases "map_of url_rules (path_part p)")
  case None
  then have out: "path_part p \<notin> {lit ''/'', lit ''/data''}"
    by (auto simp: map_of_url_rules split: if_splits)
  then have "merge_slashes (path_part p) \<notin> {lit ''/'', lit ''/data''}"
    using merge_path_part by metis
  then have "map_of url_rules (merge_slashes (path_part p)) = None"
    by (simp add: map_of_url_rules)
  moreover have "map_of url_rules (path_part p @ [47]) = None"
    using assms by (simp add: map_of_url_rules path_part_def)
  ultimately show ?thesis
    using None by (simp add: match_url_def match_path_def del: merge_slashes.simps)
next
  case (Some ep)
  then show ?thesis by (simp add: match_url_def match_path_def)
qed

lemma match_url_Nil:
  "match_url [] m = (if m \<in> set rule_methods then RequestRedirect (lit ''/'') else NotFound)"
  by (simp add: match_url_def match_path_def map_of_url_rules)

lemma dispatch_path:
  "dispatch tpl d rq =
     (let m = map ascii_upper (request_method rq)
      in if path_info rq = [] then (if m \<in> set rule_methods then Redirect (lit ''/'') else NotFoundPage)
         else case map_of url_rules (path_part (path_info rq)) of
                None \<Rightarrow> NotFoundPage
              | Some ep \<Rightarrow>
                  if m \<notin> set rule_methods then NotAllowedPage rule_methods
                  else if m = lit ''OPTIONS'' then OptionsReply rule_methods else view tpl d ep)"
proof (cases "path_info rq = []")
  case True
  then show ?thesis by (simp add: dispatch_def Let_def match_url_Nil path_part_def)
next
  case False
  then show ?thesis by (simp add: dispatch_def Let_def match_url_path_part [OF False] split: option.split)
qed

lemma reply_code_view: "reply_code (view tpl d ep) \<in> {200, 500}"
  by (simp add: view_def split: endpoint.split sum.split response.split)

lemma path_part_slashes:
  "p \<noteq> [] \<Longrightarrow> set p \<subseteq> {47} \<Longrightarrow> path_part p = lit ''/''"
  by (simp add: path_part_def dropWhile_all subset_iff)

lemma dispatch_500:
  assumes "reply_code (dispatch tpl d rq) = 500"
  shows "(path_part (path_info rq) = lit ''/'' \<and> (\<exists>e. index tpl = Inl e))
       \<or> (path_part (path_info rq) = lit ''/data'' \<and> (\<exists>e. data_route d = InternalServerError e))"
  using assms
  by (auto simp: dispatch_path Let_def map_of_url_rules view_def
           split: if_splits option.splits sum.splits response.splits)

subsection \<open>Properties of the web layer\<close>

text \<open>
  C32. Every request gets one of the codes 200, 308, 404, 405 or 500; a 200 only
  for \<open>GET\<close>, \<open>HEAD\<close> or \<open>OPTIONS\<close> on \<open>/\<close> or \<open>/data\<close> after the
  leading slashes collapse, and a redirect only for an empty path.
\<close>

theorem dispatch_codes:
  "reply_code (dispatch tpl d rq) \<in> {200, 308, 404, 405, 500} \<and>
   (reply_code (dispatch tpl d rq) = 200 \<longrightarrow>
      map ascii_upper (request_method rq) \<in> set rule_methods \<and> path_part (path_info rq) \<in> {lit ''/'', lit ''/data''}) \<and>
   (reply_code (dispatch tpl d rq) = 308 \<longrightarrow> path_info rq = [])"
  using reply_code_view [of tpl d Index] reply_code_view [of tpl d Data]
  by (auto simp: dispatch_path Let_def map_of_url_rules split: option.splits if_splits)

theorem dispatch_codes_witness:
  "reply_code (dispatch (\<lambda>n. None) initial_sensor_data \<lparr>request_method = lit ''GET'', path_info = lit ''/data''\<rparr>) = 200 \<and>
   map ascii_upper (lit ''GET'') \<in> set rule_methods \<and> path_part (lit ''/data'') \<in> {lit ''/'', lit ''/data''}"
proof -
  have ok: "reply_code (dispatch (\<lambda>n. None) initial_sensor_data \<lparr>request_method = lit ''GET'', path_info = lit ''/data''\<rparr>) = 200"
    by (simp add: dispatch_path map_of_url_rules rule_methods_def path_part_def ascii_upper_def view_def
        data_route_def to_json_def dict_items_def initial_sensor_data_def)
  with dispatch_codes [of "\<lambda>n. None" initial_sensor_data "\<lparr>request_method = lit ''GET'', path_info = lit ''/data''\<rparr>"]
  show ?thesis by simp
qed

text \<open>
  Any other non-empty path answers 404 for every method, \<open>/data/\<close> with its
  trailing slash included: slash merging never turns such a path into a rule.
\<close>

theorem dispatch_not_found:
  assumes "path_info rq \<noteq> []" and "path_part (path_info rq) \<notin> {lit ''/'', lit ''/data''}"
  shows "dispatch tpl d rq = NotFoundPage"
  using assms by (simp add: dispatch_path map_of_url_rules)

theorem dispatch_not_found_witness:
  "dispatch (\<lambda>n. None) initial_sensor_data \<lparr>request_method = lit ''GET'', path_info = lit ''/data/''\<rparr> = NotFoundPage"
  by (rule dispatch_not_found) (simp_all add: path_part_def)

text \<open>
  C31. A method other than \<open>GET\<close>, \<open>HEAD\<close> and \<open>OPTIONS\<close> on either
  route answers 405 with exactly those three methods allowed; the view does
  not run.
\<close>

theorem dispatch_method_not_allowed:
  assumes "path_part (path_info rq) \<in> {lit ''/'', lit ''/data''}"
      and "map ascii_upper (request_method rq) \<notin> set rule_methods"
  shows "dispatch tpl d rq = NotAllowedPage [lit ''GET'', lit ''HEAD'', lit ''OPTIONS'']"
proof -
  have "path_info rq \<noteq> []" using assms(1) by (auto simp: path_part_def)
  with assms show ?thesis by (auto simp: dispatch_path Let_def map_of_url_rules rule_methods_def)
qed

theorem dispatch_method_not_allowed_witness:
  "dispatch (\<lambda>n. None) initial_sensor_data \<lparr>request_method = lit ''POST'', path_info = lit ''/data''\<rparr>
     = NotAllowedPage [lit ''GET'', lit ''HEAD'', lit ''OPTIONS'']"
  by (rule dispatch_method_not_allowed) (simp_all add: path_part_def rule_methods_def ascii_upper_def)

text \<open>
  C33. A \<open>HEAD\<close> request gets the status of the \<open>GET\<close> request on the same
  path and an empty body.
\<close>

theorem head_matches_get:
  "serve cfg tpl fr d (rq\<lparr>request_method := lit ''HEAD''\<rparr>) = (fst (serve cfg tpl fr d (rq\<lparr>request_method := lit ''GET''\<rparr>)), Some [])"
proof -
  have "dispatch tpl d (rq\<lparr>request_method := lit ''HEAD''\<rparr>) = dispatch tpl d (rq\<lparr>request_method := lit ''GET''\<rparr>)"
    by (simp add: dispatch_path Let_def ascii_upper_def rule_methods_def split: option.split)
  then show ?thesis by (simp add: serve_def body_text_def Let_def ascii_upper_def)
qed

text \<open>
  C11. Only a request for \<open>/data\<close> reads the shared record: the reply to any
  other request is the same for every record.
\<close>

theorem dispatch_record_unread:
  assumes "path_part (path_info rq) \<noteq> lit ''/data''"
  shows "dispatch tpl d rq = dispatch tpl d' rq"
  using assms by (simp add: dispatch_path Let_def map_of_url_rules view_def)

theorem dispatch_record_unread_witness:
  "dispatch (\<lambda>n. None) initial_sensor_data \<lparr>request_method = lit ''GET'', path_info = lit ''/''\<rparr>
     = dispatch (\<lambda>n. None) (initial_sensor_data\<lparr>temp := PyFloat (Fin False 25)\<rparr>) \<lparr>request_method = lit ''GET'', path_info = lit ''/''\<rparr>"
  by (rule dispatch_record_unread) (simp add: path_part_def)

text \<open>
  C25. The server of line 115 answers \<open>GET /data\<close> with the status of the
  \<open>data\<close> view and the JSON text in its indented form, because
  \<open>app.run(debug=True)\<close> puts the application in debug mode.
\<close>

theorem serve_data_route:
  assumes "path_part (path_info rq) = lit ''/data''" and "map ascii_upper (request_method rq) = lit ''GET''"
  shows "serve app_run tpl fr d rq = (status (data_route d), response_body True fr (data_route d))"
proof -
  have "path_info rq \<noteq> []" using assms(1) by (auto simp: path_part_def)
  with assms show ?thesis
    by (simp add: serve_def dispatch_path Let_def map_of_url_rules rule_methods_def view_def body_text_def app_run_def
        status_def response_body_def split: response.split)
qed

theorem serve_data_route_witness:
  "serve app_run (\<lambda>n. None) (\<lambda>neg v. lit ''0.0'') initial_sensor_data \<lparr>request_method = lit ''get'', path_info = lit ''//data''\<rparr>
     = (status (data_route initial_sensor_data), response_body True (\<lambda>neg v. lit ''0.0'') (data_route initial_sensor_data))"
  by (rule serve_data_route) (simp_all add: path_part_def ascii_upper_def)

text \<open>
  C30. A missing dataset file ends the program during start-up, after the serial
  port was opened and with the message of line 44, and no server is started,
  whether or not the file runs as a script.
\<close>

theorem dataset_missing_no_server:
  assumes "open_serial port = Inr (hp, out)"
  shows "startup port (Inl FileNotFoundError) fit = (StartupExit, out @ [Print DatasetNotFound])
         \<and> main is_main (fst (startup port (Inl FileNotFoundError) fit)) = None"
  using startup_dataset_missing [OF assms] by (simp add: main_def)

theorem dataset_missing_no_server_witness:
  "startup (Inr ()) (Inl FileNotFoundError) (\<lambda>t a b. Inr (\<lambda>row. Inr (PyStr (lit ''Wheat''))))
     = (StartupExit, [Sleep 2, Print DatasetNotFound])
   \<and> main True (fst (startup (Inr ()) (Inl FileNotFoundError) (\<lambda>t a b. Inr (\<lambda>row. Inr (PyStr (lit ''Wheat'')))))) = None"
proof -
  have "open_serial (Inr ()) = Inr (True, [Sleep 2])" by (simp add: open_serial_def)
  from dataset_missing_no_server [OF this] show ?thesis by (simp add: main_def)
qed

end
