(* ===== verification/Serial.thy ===== *)
theory Serial
  imports Prelude "HOL-Library.Stream"
begin

text \<open>
  The serial port as \<open>read_arduino\<close> reads it: \<open>arduino.readline()\<close> on
  line 64 of \<open>src/app.py\<close>, on a port opened with \<open>timeout=1\<close> (line 13).
  pySerial 3's \<open>Serial\<close> is an \<open>io.RawIOBase\<close> and does not define
  \<open>readline\<close>: the call is \<open>io.IOBase.readline\<close>, which calls
  \<open>read(1)\<close> until it returns a newline or nothing, with no overall time
  limit. Each \<open>read(1)\<close> waits at most the port's timeout of one second
  for a byte.

  The port is the clock (in milliseconds) and the infinite stream of the bytes
  the device will still send, each with the time it reaches the driver's
  buffer (the Arduino sends for ever; a device that falls silent is a stream
  whose next arrival lies beyond any time of interest). The loop of
  \<open>readline\<close> is a \<open>partial_function (option)\<close>: \<open>None\<close> is a call
  that never returns, which happens, and \<open>readline_returns_iff\<close> says
  exactly when.
\<close>

definition serial_timeout :: nat where
  "serial_timeout = 1000"

record port =
  clock :: nat
  pending :: "(nat \<times> byte) stream"

text \<open>\<open>read(1)\<close>: the next byte if it arrives within the timeout from
  now (at once if it is already there), otherwise nothing after waiting the
  whole timeout.\<close>

definition read1 :: "port \<Rightarrow> byte option \<times> port" where
  "read1 p =
     (case shd (pending p) of
        (t, b) \<Rightarrow>
          if t \<le> clock p + serial_timeout then (Some b, p\<lparr>clock := max (clock p) t, pending := stl (pending p)\<rparr>)
          else (None, p\<lparr>clock := clock p + serial_timeout\<rparr>))"

text \<open>The loop of \<open>IOBase.readline\<close> with no size limit: read one byte;
  stop on an empty read, append it, stop after a newline; \<open>line\<close> is the
  bytes read so far.\<close>

partial_function (option) readline_loop :: "byte list \<Rightarrow> port \<Rightarrow> (byte list \<times> port) option" where
  "readline_loop line p =
     (case read1 p of
        (None, p1) \<Rightarrow> Some (line, p1)
      | (Some c, p1) \<Rightarrow> if c = 10 then Some (line @ [c], p1) else readline_loop (line @ [c]) p1)"

definition readline :: "port \<Rightarrow> (byte list \<times> port) option" where
  "readline p = readline_loop [] p"

text \<open>The lines of \<open>n\<close> successive calls, as the loop of \<open>read_arduino\<close>
  makes them one after the other.\<close>

fun readlines :: "nat \<Rightarrow> port \<Rightarrow> (byte list list \<times> port) option" where
  "readlines 0 p = Some ([], p)"
| "readlines (Suc n) p =
     (case readline p of
        None \<Rightarrow> None
      | Some (l, p1) \<Rightarrow> map_option (\<lambda>(ls, p2). (l # ls, p2)) (readlines n p1))"

subsection \<open>When a call stops\<close>

text \<open>\<open>clock_at p i\<close> is the clock when the \<open>i\<close>-th pending byte is
  waited for, all the bytes before it having arrived in time; the call stops at
  position \<open>i\<close> when that byte comes later than one timeout from then
  (the read returns nothing) or is a newline.\<close>

fun clock_at :: "port \<Rightarrow> nat \<Rightarrow> nat" where
  "clock_at p 0 = clock p"
| "clock_at p (Suc i) = max (clock_at p i) (fst (pending p !! i))"

definition stops :: "port \<Rightarrow> nat \<Rightarrow> bool" where
  "stops p i = (clock_at p i + serial_timeout < fst (pending p !! i) \<or> snd (pending p !! i) = 10)"

lemmas serial_defs [model_defs] = serial_timeout_def read1_def readline_def

subsection \<open>Lemmas\<close>

lemma clock_at_stl:
  "clock_at (p\<lparr>clock := max (clock p) (fst (shd (pending p))), pending := stl (pending p)\<rparr>) i = clock_at p (Suc i)"
  by (induction i) (simp_all add: max.assoc)

lemma stops_stl:
  "stops (p\<lparr>clock := max (clock p) (fst (shd (pending p))), pending := stl (pending p)\<rparr>) i = stops p (Suc i)"
  by (simp add: stops_def clock_at_stl)

lemma read1_arrives:
  "\<not> clock p + serial_timeout < fst (shd (pending p)) \<Longrightarrow>
   read1 p = (Some (snd (shd (pending p))), p\<lparr>clock := max (clock p) (fst (shd (pending p))), pending := stl (pending p)\<rparr>)"
  by (cases "shd (pending p)") (simp add: read1_def)

lemma read1_late:
  "clock p + serial_timeout < fst (shd (pending p)) \<Longrightarrow> read1 p = (None, p\<lparr>clock := clock p + serial_timeout\<rparr>)"
  by (cases "shd (pending p)") (simp add: read1_def)

lemma readline_loop_first_stop:
  assumes "stops p n" and "\<forall>i<n. \<not> stops p i"
  shows "readline_loop line p = Some
           (if clock_at p n + serial_timeout < fst (pending p !! n)
            then (line @ map snd (stake n (pending p)), p\<lparr>clock := clock_at p n + serial_timeout, pending := sdrop n (pending p)\<rparr>)
            else (line @ map snd (stake (Suc n) (pending p)), p\<lparr>clock := clock_at p (Suc n), pending := sdrop (Suc n) (pending p)\<rparr>))"
  using assms
proof (induction n arbitrary: line p)
  case 0
  then show ?case
    by (cases "clock p + serial_timeout < fst (shd (pending p))")
       (simp_all add: stops_def readline_loop.simps read1_arrives read1_late)
next
  case (Suc n)
  have "\<not> stops p 0" using Suc.prems(2) by blast
  then have a: "\<not> clock p + serial_timeout < fst (shd (pending p))" and b: "snd (shd (pending p)) \<noteq> 10"
    by (simp_all add: stops_def)
  have "stops (p\<lparr>clock := max (clock p) (fst (shd (pending p))), pending := stl (pending p)\<rparr>) n"
    "\<forall>i<n. \<not> stops (p\<lparr>clock := max (clock p) (fst (shd (pending p))), pending := stl (pending p)\<rparr>) i"
    using Suc.prems by (simp_all add: stops_stl)
  from Suc.IH [OF this, of "line @ [snd (shd (pending p))]"] a b show ?case
    by (simp add: readline_loop.simps read1_arrives clock_at_stl)
qed

lemma readline_loop_stops:
  assumes "readline_loop line p = Some r"
  shows "\<exists>i. stops p i"
  using assms
proof (induction rule: readline_loop.raw_induct [rotated, consumes 1])
  case (1 loop line p r)
  show ?case
  proof (cases "clock p + serial_timeout < fst (shd (pending p))")
    case True
    then have "stops p 0" by (simp add: stops_def)
    then show ?thesis ..
  next
    case False
    show ?thesis
    proof (cases "snd (shd (pending p)) = 10")
      case True
      then have "stops p 0" by (simp add: stops_def)
      then show ?thesis ..
    next
      case nl: False
      with False 1(2) have "loop (line @ [snd (shd (pending p))])
          (p\<lparr>clock := max (clock p) (fst (shd (pending p))), pending := stl (pending p)\<rparr>) = Some r"
        by (simp add: read1_arrives)
      from 1(1) [OF this] have "\<exists>i. stops p (Suc i)" by (simp add: stops_stl)
      then show ?thesis by blast
    qed
  qed
qed

lemma readline_Some:
  assumes "readline p = Some (l, p')"
  obtains n where "stops p n" "\<forall>i<n. \<not> stops p i"
    "(l, p') = (if clock_at p n + serial_timeout < fst (pending p !! n)
            then (map snd (stake n (pending p)), p\<lparr>clock := clock_at p n + serial_timeout, pending := sdrop n (pending p)\<rparr>)
            else (map snd (stake (Suc n) (pending p)), p\<lparr>clock := clock_at p (Suc n), pending := sdrop (Suc n) (pending p)\<rparr>))"
proof -
  from assms have "\<exists>i. stops p i" by (auto simp: readline_def dest: readline_loop_stops)
  then obtain n where n: "stops p n" "\<forall>i<n. \<not> stops p i"
    using exists_least_iff [of "stops p"] by blast
  from readline_loop_first_stop [OF n, of "[]"] assms show ?thesis
    by (intro that [OF n]) (auto simp: readline_def simp del: stake.simps)
qed

lemma no_newline_before:
  "\<forall>i<n. \<not> stops p i \<Longrightarrow> 10 \<notin> set (map snd (stake n (pending p)))"
  unfolding stops_def by (auto simp: in_set_conv_nth) (metis snd_conv)

lemma clock_at_le: "clock p \<le> clock_at p k"
  by (induction k) auto

lemma clock_at_bound:
  "\<forall>i<k. fst (pending p !! i) \<le> clock_at p i + serial_timeout \<Longrightarrow> clock_at p k \<le> clock p + k * serial_timeout"
  by (induction k) auto

lemma readline_consumes:
  "readline p = Some (l, p') \<Longrightarrow> l = map snd (stake (length l) (pending p)) \<and> pending p' = sdrop (length l) (pending p)"
  by (erule readline_Some) (auto split: if_splits)

lemma successively_lower_head:
  "successively (\<lambda>x y. y \<le> x + d) (x # xs) \<Longrightarrow> x \<le> x' \<Longrightarrow> successively (\<lambda>x y. y \<le> x + (d::nat)) (x' # xs)"
  by (cases xs) auto

text \<open>A line whose bytes arrive each within the timeout of the one before,
  followed by a pause of more than the timeout, is returned whole.\<close>

lemma readline_loop_timed:
  assumes "pending p = zip ts bs @- rest" and "length ts = length bs" and "10 \<notin> set bs"
    and "successively (\<lambda>x y. y \<le> x + serial_timeout) (clock p # ts)"
    and "fold max ts (clock p) + serial_timeout < fst (shd rest)"
  shows "readline_loop line p = Some (line @ bs,
           p\<lparr>clock := fold max ts (clock p) + serial_timeout, pending := rest\<rparr>)"
  using assms
proof (induction bs arbitrary: line p ts)
  case Nil
  then show ?case by (simp add: readline_loop.simps read1_late)
next
  case (Cons b bs)
  then obtain t ts' where ts: "ts = t # ts'" by (cases ts) auto
  with Cons.prems have a: "\<not> clock p + serial_timeout < fst (shd (pending p))" and sh: "shd (pending p) = (t, b)"
    by auto
  let ?p1 = "p\<lparr>clock := max (clock p) t, pending := zip ts' bs @- rest\<rparr>"
  have "successively (\<lambda>x y. y \<le> x + serial_timeout) (t # ts')" using Cons.prems(4) ts by simp
  then have "successively (\<lambda>x y. y \<le> x + serial_timeout) (clock ?p1 # ts')"
    by (rule successively_lower_head) simp
  moreover have "fold max ts' (clock ?p1) + serial_timeout < fst (shd rest)"
    using Cons.prems(5) ts by (simp add: max.commute)
  ultimately have "readline_loop (line @ [b]) ?p1 = Some ((line @ [b]) @ bs,
           ?p1\<lparr>clock := fold max ts' (clock ?p1) + serial_timeout, pending := rest\<rparr>)"
    using Cons.prems ts by (intro Cons.IH) auto
  moreover have "fold max ts' (clock ?p1) = fold max ts (clock p)" by (simp add: ts max.commute)
  ultimately have "readline_loop (line @ [b]) ?p1 = Some ((line @ [b]) @ bs,
           p\<lparr>clock := fold max ts (clock p) + serial_timeout, pending := rest\<rparr>)"
    by simp
  with a sh Cons.prems(1,3) ts show ?case by (simp add: readline_loop.simps read1_arrives)
qed

subsection \<open>Properties of readline\<close>

text \<open>
  C27. Termination, exactly: \<open>readline\<close> returns if and only if some
  pending byte stops it, a byte that comes more than one timeout after the
  call has waited for it or a newline. A device that keeps sending bytes
  other than a newline, each within a second of the one before, blocks the
  call for ever: the loop has no overall deadline.
\<close>

theorem readline_returns_iff: "(\<exists>r. readline p = Some r) \<longleftrightarrow> (\<exists>i. stops p i)"
proof
  assume "\<exists>r. readline p = Some r"
  then show "\<exists>i. stops p i" by (auto simp: readline_def dest: readline_loop_stops)
next
  assume "\<exists>i. stops p i"
  then obtain n where "stops p n" "\<forall>i<n. \<not> stops p i"
    using exists_least_iff [of "stops p"] by blast
  from readline_loop_first_stop [OF this, of "[]"] show "\<exists>r. readline p = Some r"
    by (simp add: readline_def)
qed

theorem readline_returns_iff_witness:
  "readline \<lparr>clock = 0, pending = siterate (\<lambda>(t, b). (t + 900, b)) (0, 0x34)\<rparr> = None"
proof -
  let ?p = "\<lparr>clock = 0, pending = siterate (\<lambda>(t, b). (t + 900, b)) (0, 0x34)\<rparr> :: port"
  have f: "((\<lambda>(t, b). (t + 900, b)) ^^ i) (a, c) = (a + 900 * i, c)" for i a and c :: byte
    by (induction i) auto
  have at: "pending ?p !! i = (900 * i, 0x34)" for i
    by (simp add: f)
  have lo: "900 * i \<le> clock_at ?p i + 900" for i
    by (cases i) (simp_all add: f)
  have "\<not> stops ?p i" for i
    using lo [of i] by (simp add: stops_def f serial_timeout_def)
  then have "\<not> (\<exists>r. readline ?p = Some r)" using readline_returns_iff [of ?p] by blast
  then show ?thesis by (cases "readline ?p") auto
qed

text \<open>
  C19. Functional behaviour: at the first position \<open>n\<close> where the call
  stops, \<open>readline\<close> returns the bytes before it, after waiting one more
  timeout, if the byte there comes too late (a line cut by a pause of the
  sender, or the empty line of an idle port), and the bytes up to and
  including the newline otherwise; the rest of the stream is left for the
  next call.
\<close>

theorem readline_first_stop:
  assumes "stops p n" and "\<forall>i<n. \<not> stops p i"
  shows "readline p = Some
           (if clock_at p n + serial_timeout < fst (pending p !! n)
            then (map snd (stake n (pending p)), p\<lparr>clock := clock_at p n + serial_timeout, pending := sdrop n (pending p)\<rparr>)
            else (map snd (stake (Suc n) (pending p)), p\<lparr>clock := clock_at p (Suc n), pending := sdrop (Suc n) (pending p)\<rparr>))"
  using readline_loop_first_stop [OF assms, of "[]"] by (simp add: readline_def)

theorem readline_first_stop_witness:
  "stops \<lparr>clock = 0, pending = (0, 0x34) ## (900, 0x30) ## sconst (5000, 10)\<rparr> 2 \<and> \<not> stops \<lparr>clock = 0, pending = (0, 0x34) ## (900, 0x30) ## sconst (5000, 10)\<rparr> 0 \<and> \<not> stops \<lparr>clock = 0, pending = (0, 0x34) ## (900, 0x30) ## sconst (5000, 10)\<rparr> 1
   \<and> readline \<lparr>clock = 0, pending = (0, 0x34) ## (900, 0x30) ## sconst (5000, 10)\<rparr> = Some ([0x34, 0x30], \<lparr>clock = 1900, pending = sconst (5000, 10)\<rparr>)"
proof -
  have n: "\<not> stops \<lparr>clock = 0, pending = (0, 0x34) ## (900, 0x30) ## sconst (5000, 10)\<rparr> 0" "\<not> stops \<lparr>clock = 0, pending = (0, 0x34) ## (900, 0x30) ## sconst (5000, 10)\<rparr> 1"
    by (simp_all add: stops_def serial_timeout_def)
  then have s: "stops \<lparr>clock = 0, pending = (0, 0x34) ## (900, 0x30) ## sconst (5000, 10)\<rparr> 2" "\<forall>i<2. \<not> stops \<lparr>clock = 0, pending = (0, 0x34) ## (900, 0x30) ## sconst (5000, 10)\<rparr> i"
    by (auto simp: stops_def serial_timeout_def numeral_2_eq_2 less_Suc_eq)
  from readline_first_stop [OF s] s(1) n show ?thesis
    by (simp add: serial_timeout_def numeral_2_eq_2)
qed

text \<open>
  C40. Well-formedness of a returned line: it is the next pending bytes in
  their order of arrival, exactly those the call removes from the port, and
  it contains a newline at most as its last byte.
\<close>

theorem readline_line_shape:
  assumes "readline p = Some (l, p')"
  shows "l = map snd (stake (length l) (pending p)) \<and> pending p' = sdrop (length l) (pending p)
         \<and> 10 \<notin> set (butlast l)"
  using assms
proof (rule readline_Some)
  fix n assume "\<forall>i<n. \<not> stops p i"
    and "(l, p') = (if clock_at p n + serial_timeout < fst (pending p !! n)
            then (map snd (stake n (pending p)), p\<lparr>clock := clock_at p n + serial_timeout, pending := sdrop n (pending p)\<rparr>)
            else (map snd (stake (Suc n) (pending p)), p\<lparr>clock := clock_at p (Suc n), pending := sdrop (Suc n) (pending p)\<rparr>))"
  with no_newline_before [of n p] show ?thesis
    by (auto simp: stake_Suc simp del: stake.simps(2) split: if_splits dest: in_set_butlastD)
qed

theorem readline_line_shape_witness:
  "[0x34, 0x30] = map snd (stake 2 ((0, 0x34) ## (900, 0x30) ## (sconst (5000, 10) :: (nat \<times> byte) stream)))
   \<and> sconst (5000, 10) = sdrop 2 ((0, 0x34) ## (900, 0x30) ## (sconst (5000, 10) :: (nat \<times> byte) stream))"
proof -
  have r: "readline \<lparr>clock = 0, pending = (0, 0x34) ## (900, 0x30) ## sconst (5000, 10)\<rparr> = Some ([0x34, 0x30], \<lparr>clock = 1900, pending = sconst (5000, 10)\<rparr>)"
    by (simp add: serial_defs readline_loop.simps)
  from readline_line_shape [OF r] show ?thesis by (simp add: numeral_2_eq_2)
qed

text \<open>
  C28. Bounds on the time a call takes: \<open>readline\<close> returns no earlier
  than it was called and at most one timeout per byte returned, plus one,
  later; a call that returns without a newline has waited at least one full
  timeout. There is no bound independent of the line's length.
\<close>

theorem readline_bounds:
  assumes "readline p = Some (l, p')"
  shows "clock p \<le> clock p' \<and> clock p' \<le> clock p + Suc (length l) * serial_timeout
         \<and> (l = [] \<or> last l \<noteq> 10 \<longrightarrow> clock p + serial_timeout \<le> clock p')"
  using assms
proof (rule readline_Some)
  fix n assume st: "stops p n" and pre: "\<forall>i<n. \<not> stops p i"
    and r: "(l, p') = (if clock_at p n + serial_timeout < fst (pending p !! n)
            then (map snd (stake n (pending p)), p\<lparr>clock := clock_at p n + serial_timeout, pending := sdrop n (pending p)\<rparr>)
            else (map snd (stake (Suc n) (pending p)), p\<lparr>clock := clock_at p (Suc n), pending := sdrop (Suc n) (pending p)\<rparr>))"
  have arr: "\<forall>i<n. fst (pending p !! i) \<le> clock_at p i + serial_timeout"
    using pre by (auto simp: stops_def not_less)
  show ?thesis
  proof (cases "clock_at p n + serial_timeout < fst (pending p !! n)")
    case True
    with r clock_at_bound [OF arr] clock_at_le [of p n] show ?thesis by auto
  next
    case False
    then have "\<forall>i<Suc n. fst (pending p !! i) \<le> clock_at p i + serial_timeout"
      using arr by (auto simp: less_Suc_eq not_less)
    from clock_at_bound [OF this] False st r clock_at_le [of p "Suc n"] show ?thesis
      by (auto simp: stops_def stake_Suc simp del: stake.simps(2))
  qed
qed

theorem readline_bounds_witness:
  "clock \<lparr>clock = 0, pending = (0, 0x34) ## (900, 0x30) ## sconst (5000, 10)\<rparr> \<le> 1900 \<and> (1900::nat) \<le> clock \<lparr>clock = 0, pending = (0, 0x34) ## (900, 0x30) ## sconst (5000, 10)\<rparr> + Suc (length [0x34, 0x30 :: byte]) * serial_timeout
   \<and> clock \<lparr>clock = 0, pending = (0, 0x34) ## (900, 0x30) ## sconst (5000, 10)\<rparr> + serial_timeout \<le> 1900"
proof -
  have r: "readline \<lparr>clock = 0, pending = (0, 0x34) ## (900, 0x30) ## sconst (5000, 10)\<rparr> = Some ([0x34, 0x30], \<lparr>clock = 1900, pending = sconst (5000, 10)\<rparr>)"
    by (simp add: serial_defs readline_loop.simps)
  from readline_bounds [OF r] show ?thesis by simp
qed

text \<open>
  C9. Successive calls lose, duplicate and reorder nothing: the lines of
  \<open>n\<close> calls, concatenated, followed by the bytes still pending, are the
  bytes that were pending at the start.
\<close>

theorem readlines_no_loss:
  "readlines n p = Some (ls, p') \<Longrightarrow> smap snd (pending p) = concat ls @- smap snd (pending p')"
proof (induction n arbitrary: p ls)
  case 0
  then show ?case by simp
next
  case (Suc n)
  then obtain l p1 ls' where r: "readline p = Some (l, p1)" "readlines n p1 = Some (ls', p')" "ls = l # ls'"
    by (auto split: option.splits prod.splits)
  from readline_consumes [OF r(1)] have "smap snd (pending p) = l @- smap snd (pending p1)"
    by (metis sdrop_smap stake_sdrop stake_smap)
  with Suc.IH [OF r(2)] r(3) show ?case by simp
qed

theorem readlines_no_loss_witness:
  "smap snd (pending \<lparr>clock = 0, pending = (0, 0x34) ## (900, 0x30) ## sconst (5000, 10)\<rparr>) = concat [[0x34, 0x30], []] @- smap snd (sconst (5000 :: nat, 10 :: byte))"
proof -
  have r: "readlines (Suc (Suc 0)) \<lparr>clock = 0, pending = (0, 0x34) ## (900, 0x30) ## sconst (5000, 10)\<rparr> = Some ([[0x34, 0x30], []], \<lparr>clock = 2900, pending = sconst (5000, 10)\<rparr>)"
    by (simp add: serial_defs readline_loop.simps)
  from readlines_no_loss [OF r] show ?thesis by simp
qed

end
