(* ===== verification/FloatRepr.thy ===== *)
theory FloatRepr
  imports PyFloat "HOL-Library.Code_Target_Nat"
begin

text \<open>
  \<open>float.__repr__\<close>, the text \<open>jsonify\<close> writes for a finite float
  (\<open>floatstr\<close> of Python's \<open>json\<close> module calls it). CPython's
  \<open>float_repr\<close> asks \<open>_Py_dg_dtoa\<close> in mode 0 for the shortest string of
  significant digits that reads back as the same binary64 value, the closest
  one to the value when several have that length, and lays it out in
  \<open>format_float_short\<close> with the \<open>'r'\<close> rules: positional notation when
  the decimal point position \<open>decpt\<close> is between \<open>-3\<close> and \<open>16\<close>, with at
  least one digit on each side of the point, and otherwise one digit, the
  other digits after a point, and an exponent of at least two digits with its
  sign.

  \<open>shortest n x\<close> tries \<open>n\<close>, \<open>n + 1\<close>, ... significant digits: with
  \<open>n\<close> digits the candidates are the two neighbours \<open>lo\<close> and \<open>hi\<close> of
  \<open>x\<close> on the grid \<open>10 powi k\<close>; a candidate qualifies when
  \<open>round_b64\<close> maps it back to \<open>x\<close>. At 17 digits the nearest candidate
  always qualifies (\<open>shortest_qualifies\<close>), so the search stops there.
  \<open>strip_zeros\<close> drops the trailing zeros of the digits, as \<open>_Py_dg_dtoa\<close>
  does, and \<open>format_short\<close> lays out digits and point position.

  The lemmas show that \<open>float()\<close> reads every text \<open>format_short\<close>
  writes as the decimal it denotes (\<open>py_float_format_short\<close>, all four
  layouts) and so gives back every binary64 value from its \<open>repr\<close>, signed
  zeros included (\<open>float_repr_roundtrip\<close>). \<open>round_b64\<close> is monotone, so
  a decimal with \<open>m\<close> digits that reads back as \<open>x\<close> has a neighbour of
  \<open>x\<close> on the \<open>m\<close>-digit grid between itself and \<open>x\<close> that does too
  (\<open>candidate_qualifies\<close>): the search stops by \<open>m\<close> digits. \<open>Code_Target_Nat\<close> lets
  \<open>code_simp\<close> evaluate the digit arithmetic on numerals of 17 digits.
\<close>

abbreviation log10_floor :: "rat \<Rightarrow> int" where
  "log10_floor \<equiv> log_floor 10"

definition closer_digits :: "rat \<Rightarrow> int \<Rightarrow> int \<Rightarrow> int" where
  "closer_digits s lo hi =
     (if s - of_int lo < of_int hi - s then lo else if of_int hi - s < s - of_int lo then hi
      else if even lo then lo else hi)"

function shortest :: "nat \<Rightarrow> rat \<Rightarrow> int \<times> int" where
  "shortest n x =
     (let k = log10_floor x + 1 - int n; s = x / 10 powi k; lo = \<lfloor>s\<rfloor>; hi = \<lceil>s\<rceil>;
          okl = (round_b64 (of_int lo * 10 powi k) = x); okh = (round_b64 (of_int hi * 10 powi k) = x)
      in if 17 \<le> n then (round_even s, k)
         else if okl \<and> okh then (closer_digits s lo hi, k)
         else if okl then (lo, k) else if okh then (hi, k)
         else shortest (Suc n) x)"
  by pat_completeness auto

termination
  by (relation "measure (\<lambda>(n, x). 17 - n)") auto

declare shortest.simps [simp del]

function strip_zeros :: "int \<Rightarrow> int \<Rightarrow> int \<times> int" where
  "strip_zeros d k = (if d \<noteq> 0 \<and> d mod 10 = 0 then strip_zeros (d div 10) (k + 1) else (d, k))"
  by pat_completeness auto

termination
  by (relation "measure (\<lambda>(d, k). nat \<bar>d\<bar>)") auto

declare strip_zeros.simps [simp del]

text \<open>\<open>"%+.02d"\<close> of the exponent.\<close>

definition exp_digits :: "int \<Rightarrow> pystr" where
  "exp_digits e =
     (if e < 0 then 45 else 43) # (if nat \<bar>e\<bar> < 10 then [48, 48 + nat \<bar>e\<bar>] else nat_digits (nat \<bar>e\<bar>))"

definition format_short :: "nat \<Rightarrow> int \<Rightarrow> pystr" where
  "format_short d k =
     (let ds = nat_digits d; l = int (length ds); decpt = l + k
      in if decpt \<le> -4 \<or> 16 < decpt then hd ds # (if l = 1 then [] else 46 # tl ds) @ 101 # exp_digits (decpt - 1)
         else if decpt \<le> 0 then 48 # 46 # replicate (nat (- decpt)) 48 @ ds
         else if l \<le> decpt then ds @ replicate (nat (decpt - l)) 48 @ [46, 48]
         else take (nat decpt) ds @ 46 # drop (nat decpt) ds)"

definition float_repr :: "bool \<Rightarrow> rat \<Rightarrow> pystr" where
  "float_repr neg v =
     (if neg then [45] else []) @
     (if v = 0 then lit ''0.0''
      else (case case_prod strip_zeros (shortest 1 v) of (d, k) \<Rightarrow> format_short (nat d) k))"


text \<open>The test \<open>_Py_dg_dtoa\<close> applies to a candidate: a positive significand
  whose value reads back as \<open>x\<close>.\<close>

definition qualifies :: "rat \<Rightarrow> int \<times> int \<Rightarrow> bool" where
  "qualifies x r \<longleftrightarrow> 0 < fst r \<and> round_b64 (of_int (fst r) * 10 powi snd r) = x"

subsection \<open>Lemmas\<close>

lemma powi_ten_pos [simp]: "(0::rat) < 10 powi e"
  by (simp add: power_int_def)

lemma powi_ten_mono: "(e::int) \<le> f \<Longrightarrow> (10::rat) powi e \<le> 10 powi f"
  by (rule power_int_increasing) simp_all

lemma log10_floor:
  assumes "0 < v"
  shows "10 powi log10_floor v \<le> v" and "v < 10 powi (log10_floor v + 1)"
  using log_floor [OF assms, of 10] by simp_all

lemma closer_digits_cases: "closer_digits s lo hi = lo \<or> closer_digits s lo hi = hi"
  by (simp add: closer_digits_def)

lemma seventeen_digits:
  assumes x: "is_b64 x" "0 < x" and n: "17 \<le> n"
  defines "k \<equiv> log10_floor x + 1 - int n"
  shows "round_b64 (of_int (round_even (x / 10 powi k)) * 10 powi k) = x"
proof -
  define L where "L = log10_floor x"
  define s where "s = x / 10 powi k"
  define c :: rat where "c = of_int (round_even s) * 10 powi k"
  have L: "10 powi L \<le> x" using log10_floor(1) [OF x(2)] by (simp add: L_def)
  have "k + 16 \<le> L" using n by (simp add: k_def L_def)
  then have "(10::rat) powi (k + 16) \<le> 10 powi L" by (rule powi_ten_mono)
  then have "10 powi k * 10 ^ 16 \<le> x" using L by (simp add: power_int_add)
  then have small: "2 ^ 53 * 10 powi k < x" using x(2) by simp
  have "c - x = (of_int (round_even s) - s) * 10 powi k" by (simp add: c_def s_def algebra_simps)
  then have "\<bar>c - x\<bar> = \<bar>of_int (round_even s) - s\<bar> * 10 powi k" by (simp add: abs_mult)
  also have "\<dots> \<le> 1 / 2 * 10 powi k" by (intro mult_right_mono round_even_half) simp
  finally have "2 ^ 54 * \<bar>c - x\<bar> \<le> 2 ^ 53 * 10 powi k" by simp
  then have near: "2 ^ 54 * \<bar>c - x\<bar> < x" using small by linarith
  have "0 < s" using x(2) by (simp add: s_def)
  then have "0 \<le> \<lfloor>s\<rfloor>" by simp
  then have "0 \<le> round_even s" using round_even_floor [of s] by linarith
  then have "0 \<le> c" by (simp add: c_def)
  from round_b64_recover [OF x this near] show ?thesis by (simp add: c_def s_def)
qed

lemma digits_pos: "0 \<le> d \<Longrightarrow> 0 < x \<Longrightarrow> round_b64 (of_int d * 10 powi k) = x \<Longrightarrow> 0 < d"
  by (cases "d = 0") auto


lemma shortest_cases:
  fixes x :: rat and n :: nat
  defines "k \<equiv> log10_floor x + 1 - int n"
  defines "s \<equiv> x / 10 powi k"
  shows "(17 \<le> n \<and> shortest n x = (round_even s, k))
         \<or> (n < 17 \<and> shortest n x \<in> {(\<lfloor>s\<rfloor>, k), (\<lceil>s\<rceil>, k)}
                   \<and> round_b64 (of_int (fst (shortest n x)) * 10 powi k) = x)
         \<or> (n < 17 \<and> round_b64 (of_int \<lfloor>s\<rfloor> * 10 powi k) \<noteq> x \<and> round_b64 (of_int \<lceil>s\<rceil> * 10 powi k) \<noteq> x
                   \<and> shortest n x = shortest (Suc n) x)"
proof -
  have eq: "shortest n x =
     (if 17 \<le> n then (round_even s, k)
      else if round_b64 (of_int \<lfloor>s\<rfloor> * 10 powi k) = x \<and> round_b64 (of_int \<lceil>s\<rceil> * 10 powi k) = x
        then (closer_digits s \<lfloor>s\<rfloor> \<lceil>s\<rceil>, k)
      else if round_b64 (of_int \<lfloor>s\<rfloor> * 10 powi k) = x then (\<lfloor>s\<rfloor>, k)
      else if round_b64 (of_int \<lceil>s\<rceil> * 10 powi k) = x then (\<lceil>s\<rceil>, k)
      else shortest (Suc n) x)"
    by (subst shortest.simps) (simp only: Let_def k_def [symmetric] s_def [symmetric])
  show ?thesis
    using eq closer_digits_cases [of s "\<lfloor>s\<rfloor>" "\<lceil>s\<rceil>"] by (auto split: if_splits)
qed

lemma shortest_step:
  assumes x: "is_b64 x" "0 < x"
  shows "qualifies x (shortest n x) \<or> (n < 17 \<and> shortest n x = shortest (Suc n) x)"
proof -
  define k where "k = log10_floor x + 1 - int n"
  define s where "s = x / 10 powi k"
  have s: "0 < s" using x(2) by (simp add: s_def)
  then have lo: "0 \<le> \<lfloor>s\<rfloor>" and hi: "0 \<le> \<lceil>s\<rceil>" by simp_all
  have re: "0 \<le> round_even s" using lo round_even_floor [of s] by linarith
  have r17: "17 \<le> n \<Longrightarrow> round_b64 (of_int (round_even s) * 10 powi k) = x"
    unfolding s_def k_def by (rule seventeen_digits [OF x])
  show ?thesis
    using shortest_cases [where x=x and n=n, folded k_def, folded s_def] r17
      digits_pos [OF lo x(2)] digits_pos [OF hi x(2)] digits_pos [OF re x(2)]
    by (auto simp: qualifies_def)
qed

lemma shortest_qualifies:
  assumes x: "is_b64 x" "0 < x"
  shows "qualifies x (shortest n x)"
proof (cases "17 \<le> n")
  case True
  then show ?thesis using shortest_step [OF x, of n] by simp
next
  case False
  then have "n \<le> 17" by simp
  then show ?thesis
  proof (induction rule: inc_induct)
    case base
    show ?case using shortest_step [OF x, of 17] by simp
  next
    case (step m)
    then show ?case using shortest_step [OF x, of m] by auto
  qed
qed


lemma strip_zeros_value:
  "strip_zeros d k = (d', k') \<Longrightarrow> of_int d' * 10 powi k' = (of_int d * 10 powi k :: rat) \<and> (0 < d \<longrightarrow> 0 < d')"
proof (induction d k rule: strip_zeros.induct)
  case (1 d k)
  show ?case
  proof (cases "d \<noteq> 0 \<and> d mod 10 = 0")
    case True
    then have "10 dvd d" by (simp add: dvd_eq_mod_eq_0)
    then have d: "d = (d div 10) * 10" by (rule dvd_div_mult_self [symmetric])
    have "strip_zeros (d div 10) (k + 1) = (d', k')" using 1(2) True by (simp add: strip_zeros.simps [of d k])
    with 1(1) [OF True] have ih: "of_int d' * 10 powi k' = (of_int (d div 10) * 10 powi (k + 1) :: rat)"
      "0 < d div 10 \<longrightarrow> 0 < d'" by simp_all
    have "(of_int (d div 10) * 10 powi (k + 1) :: rat) = of_int (d div 10 * 10) * 10 powi k"
      by (simp add: power_int_add)
    then have "of_int d' * 10 powi k' = (of_int d * 10 powi k :: rat)" using ih(1) d by simp
    moreover have "0 < d \<Longrightarrow> 0 < d div 10" using True by (auto simp: pos_imp_zdiv_pos_iff elim!: dvdE)
    ultimately show ?thesis using ih(2) by blast
  next
    case False
    then have "strip_zeros d k = (d, k)" by (simp only: strip_zeros.simps [of d k] if_False)
    then show ?thesis using 1(2) by simp
  qed
qed

lemma foldl_digits:
  "foldl (\<lambda>n d. 10 * n + g d) a ys = a * 10 ^ length ys + foldl (\<lambda>n d. 10 * n + g d) (0::nat) ys"
proof (induction ys arbitrary: a)
  case (Cons y ys)
  have "foldl (\<lambda>n d. 10 * n + g d) a (y # ys) = (10 * a + g y) * 10 ^ length ys + foldl (\<lambda>n d. 10 * n + g d) 0 ys"
    using Cons.IH [of "10 * a + g y"] by simp
  moreover have "foldl (\<lambda>n d. 10 * n + g d) 0 (y # ys) = g y * 10 ^ length ys + foldl (\<lambda>n d. 10 * n + g d) 0 ys"
    using Cons.IH [of "g y"] by simp
  ultimately show ?case by (simp add: algebra_simps)
qed simp

lemma digits_value_append:
  "digits_value (xs @ ys) = digits_value xs * 10 ^ length ys + digits_value ys"
  unfolding digits_value_def foldl_append by (rule foldl_digits)

lemma decimal_value_powi: "decimal_value ds e = of_nat (digits_value ds) * 10 powi e"
proof (cases "0 \<le> e")
  case True
  then show ?thesis by (simp add: decimal_value_def power_int_def)
next
  case False
  then have "(10::rat) powi e = 1 / 10 ^ nat (- e)" by (simp add: power_int_def power_one_over)
  with False show ?thesis by (simp add: decimal_value_def)
qed

lemma py_float_parse:
  assumes "s \<noteq> []" "\<not> ascii_space (hd s)" "\<not> ascii_space (last s)"
    "\<forall>c \<in> set s. c < 128 \<and> c \<noteq> 95" "dg_strtod s = Some (v, [])"
  shows "py_float s = Inr v"
  using float_inner_exact [OF assms(1-3)] assms(5) py_float_plain [OF assms(4)] by simp

lemma parse_exponent_text:
  assumes "ed \<noteq> []" "\<forall>c \<in> set ed. is_digit c" "es = 43 \<or> es = 45"
  shows "parse_exponent (101 # es # ed)
           = (if es = 45 then - int (digits_value ed) else int (digits_value ed), [])"
  using assms by (auto simp: parse_exponent_def take_sign_def takeWhile_all dropWhile_all)

lemma dg_strtod_exp:
  assumes "ip \<noteq> []" "\<forall>c \<in> set ip. is_digit c" "\<forall>c \<in> set fp. is_digit c"
    and "ed \<noteq> []" "\<forall>c \<in> set ed. is_digit c" "es = 43 \<or> es = 45"
  defines "e \<equiv> if es = 45 then - int (digits_value ed) else int (digits_value ed)"
  shows "dg_strtod ((if neg then [45] else []) @ ip @ 46 # fp @ 101 # es # ed)
           = Some (round_range neg (decimal_value (ip @ fp) (e - int (length fp))), [])"
    and "dg_strtod ((if neg then [45] else []) @ ip @ 101 # es # ed)
           = Some (round_range neg (decimal_value ip e), [])"
proof -
  have sign: "take_sign ((if neg then [45] else []) @ ip @ r) = (neg, ip @ r)" for r
    using assms(1,2) by (cases ip) (auto simp: take_sign_def is_digit_def)
  have nd: "\<not> is_digit 46" "\<not> is_digit 101" by (simp_all add: is_digit_def)
  have pe: "parse_exponent (101 # es # ed) = (e, [])"
    unfolding e_def by (rule parse_exponent_text [OF assms(4-6)])
  show "dg_strtod ((if neg then [45] else []) @ ip @ 46 # fp @ 101 # es # ed)
          = Some (round_range neg (decimal_value (ip @ fp) (e - int (length fp))), [])"
    using assms(1-3) sign [of "46 # fp @ 101 # es # ed"] nd pe
    by (simp add: dg_strtod_def takeWhile_all dropWhile_all)
  show "dg_strtod ((if neg then [45] else []) @ ip @ 101 # es # ed)
          = Some (round_range neg (decimal_value ip e), [])"
    using assms(1,2) sign [of "101 # es # ed"] nd pe
    by (simp add: dg_strtod_def takeWhile_all dropWhile_all)
qed

lemma exp_digits_parts:
  obtains es ed where "exp_digits e = es # ed" "ed \<noteq> []" "\<forall>c \<in> set ed. is_digit c"
    "es = 43 \<or> es = 45" "(if es = 45 then - int (digits_value ed) else int (digits_value ed)) = e"
proof -
  define ed where "ed = (if nat \<bar>e\<bar> < 10 then [48, 48 + nat \<bar>e\<bar>] else nat_digits (nat \<bar>e\<bar>))"
  have "ed \<noteq> [] \<and> (\<forall>c \<in> set ed. is_digit c) \<and> digits_value ed = nat \<bar>e\<bar>"
    using nat_digits_props [of "nat \<bar>e\<bar>"] by (auto simp: ed_def is_digit_def digits_value_def)
  moreover have "exp_digits e = (if e < 0 then 45 else 43) # ed" by (simp add: exp_digits_def ed_def)
  ultimately show ?thesis using that [of "if e < 0 then 45 else 43" ed] by auto
qed

lemma text_chars:
  assumes "\<forall>c \<in> set w. c = 43 \<or> c = 45 \<or> c = 46 \<or> c = 101 \<or> is_digit c"
  shows "\<forall>c \<in> set w. c < 128 \<and> c \<noteq> 95"
  using assms by (auto simp: is_digit_def)

lemma py_float_exp_form:
  assumes ds: "ds \<noteq> []" "\<forall>c \<in> set ds. is_digit c"
  shows "py_float ((if neg then [45] else []) @ hd ds # (if length ds = 1 then [] else 46 # tl ds) @ 101 # exp_digits e)
           = Inr (round_range neg (decimal_value ds (e + 1 - int (length ds))))"
proof -
  obtain es ed where ex: "exp_digits e = es # ed" "ed \<noteq> []" "\<forall>c \<in> set ed. is_digit c"
    "es = 43 \<or> es = 45" "(if es = 45 then - int (digits_value ed) else int (digits_value ed)) = e"
    by (rule exp_digits_parts)
  have h: "is_digit (hd ds)" "hd ds # tl ds = ds" using ds by simp_all
  let ?w = "(if neg then [45] else []) @ hd ds # (if length ds = 1 then [] else 46 # tl ds) @ 101 # es # ed"
  obtain c cs where dc: "ds = c # cs" using ds(1) by (cases ds) auto
  have dg: "is_digit c" "\<forall>x \<in> set cs. is_digit x" using ds(2) dc by simp_all
  have p: "dg_strtod ?w = Some (round_range neg (decimal_value ds (e + 1 - int (length ds))), [])"
  proof (cases "cs = []")
    case True
    then show ?thesis using dg_strtod_exp(2) [of "[c]" "[]" ed es neg] dg ex dc by simp
  next
    case False
    then show ?thesis using dg_strtod_exp(1) [of "[c]" cs ed es neg] dg ex dc by simp
  qed
  have "is_digit (last ed)" using ex(2,3) by simp
  then have "\<not> ascii_space (hd ?w)" "\<not> ascii_space (last ?w)" "?w \<noteq> []"
    using h(1) ex(2) by (simp_all add: ascii_space_def is_digit_def hd_append)
  moreover have "\<forall>c \<in> set ?w. c < 128 \<and> c \<noteq> 95"
    using dg ex(3,4) by (intro text_chars) (auto simp: dc)
  ultimately show ?thesis using py_float_parse p ex(1) by simp
qed

lemma py_float_format_short:
  assumes "0 < d"
  shows "py_float ((if neg then [45] else []) @ format_short d k) = Inr (round_range neg (of_nat d * 10 powi k))"
proof -
  define ds where "ds = nat_digits d"
  define l where "l = int (length ds)"
  define p where "p = l + k"
  have ds: "ds \<noteq> []" "\<forall>c \<in> set ds. is_digit c" "digits_value ds = d"
    using nat_digits_props [of d] by (simp_all add: ds_def)
  let ?sg = "if neg then [45::nat] else []"
  have fs: "format_short d k =
     (if p \<le> -4 \<or> 16 < p then hd ds # (if l = 1 then [] else 46 # tl ds) @ 101 # exp_digits (p - 1)
      else if p \<le> 0 then 48 # 46 # replicate (nat (- p)) 48 @ ds
      else if l \<le> p then ds @ replicate (nat (p - l)) 48 @ [46, 48]
      else take (nat p) ds @ 46 # drop (nat p) ds)"
    by (simp add: format_short_def Let_def ds_def l_def p_def)
  consider (E) "p \<le> -4 \<or> 16 < p" | (Z) "\<not> (p \<le> -4 \<or> 16 < p)" "p \<le> 0"
    | (W) "\<not> (p \<le> -4 \<or> 16 < p)" "0 < p" "l \<le> p" | (F) "\<not> (p \<le> -4 \<or> 16 < p)" "0 < p" "p < l"
    by linarith
  then show ?thesis
  proof cases
    case E
    have "l = 1 \<longleftrightarrow> length ds = 1" by (simp add: l_def)
    then have "format_short d k = hd ds # (if length ds = 1 then [] else 46 # tl ds) @ 101 # exp_digits (p - 1)"
      using fs E by simp
    moreover have "p - 1 + 1 - int (length ds) = k" by (simp add: p_def l_def)
    ultimately show ?thesis using py_float_exp_form [OF ds(1,2), of neg "p - 1"] ds(3)
      by (simp add: decimal_value_powi)
  next
    case Z
    define z where "z = nat (- p)"
    have t: "format_short d k = [48] @ 46 # (replicate z 48 @ ds)" using fs Z by (simp add: z_def)
    have v: "digits_value ([48] @ replicate z 48 @ ds) = d"
      using digits_value_zeros [of "Suc z" ds] ds(3) by simp
    have e: "- int (length (replicate z (48::nat) @ ds)) = k" using Z by (simp add: z_def p_def l_def)
    have "\<forall>c \<in> set (replicate z 48 @ ds). is_digit c" using ds(2) by (auto simp: is_digit_def)
    then have "py_float (?sg @ [48] @ 46 # (replicate z 48 @ ds))
                 = Inr (round_range neg (decimal_value ([48] @ replicate z 48 @ ds) (- int (length (replicate z (48::nat) @ ds)))))"
      by (intro py_float_frac_text) (simp_all add: is_digit_def)
    then show ?thesis using t v e by (simp add: decimal_value_powi)
  next
    case W
    define z where "z = nat (p - l)"
    have t: "format_short d k = (ds @ replicate z 48) @ 46 # [48]" using fs W by (simp add: z_def)
    have z0: "digits_value (replicate z 48) = 0" using digits_value_zeros [of z "[]"] by (simp add: digits_value_def)
    have v: "digits_value ((ds @ replicate z 48) @ [48]) = d * 10 ^ z * 10"
  proof -
      have "digits_value [48] = 0" by (simp add: digits_value_def)
      moreover have "digits_value (ds @ replicate z 48) = d * 10 ^ z"
        using digits_value_append [of ds "replicate z 48"] ds(3) z0 by simp
      ultimately show ?thesis using digits_value_append [of "ds @ replicate z 48" "[48]"] by simp
    qed
    have kz: "k = int z" using W by (simp add: z_def p_def)
    have "py_float (?sg @ (ds @ replicate z 48) @ 46 # [48])
            = Inr (round_range neg (decimal_value ((ds @ replicate z 48) @ [48]) (- int (length [48::nat]))))"
      using ds(1,2) by (intro py_float_frac_text) (auto simp: is_digit_def)
    moreover have "(10::rat) powi k = 10 ^ z" by (simp add: kz)
    ultimately show ?thesis using t v by (simp add: decimal_value_powi)
  next
    case F
    define n where "n = nat p"
    have t: "format_short d k = take n ds @ 46 # drop n ds" using fs F by (simp add: n_def)
    have "take n ds \<noteq> []" using F ds(1) by (simp add: n_def)
    moreover have "\<forall>c \<in> set (take n ds). is_digit c" "\<forall>c \<in> set (drop n ds). is_digit c"
      using ds(2) by (auto dest: in_set_takeD in_set_dropD)
    ultimately have "py_float (?sg @ take n ds @ 46 # drop n ds)
        = Inr (round_range neg (decimal_value (take n ds @ drop n ds) (- int (length (drop n ds)))))"
      by (rule py_float_frac_text)
    moreover have "- int (length (drop n ds)) = k" using F by (simp add: n_def p_def l_def)
    ultimately show ?thesis using t ds(3) by (simp add: decimal_value_powi)
  qed
qed

lemma round_even_ceiling: "round_even s \<le> \<lceil>s\<rceil>"
proof -
  have "\<lfloor>s\<rfloor> \<le> \<lceil>s\<rceil>" by (rule floor_le_ceiling)
  moreover have "s \<noteq> of_int \<lfloor>s\<rfloor> \<Longrightarrow> \<lceil>s\<rceil> = \<lfloor>s\<rfloor> + 1"
    by (simp add: ceiling_altdef)
  ultimately show ?thesis by (auto simp: round_even_def Let_def)
qed

lemma powi_ten_split: "k \<le> K \<Longrightarrow> (10::rat) powi K = of_int (10 ^ nat (K - k)) * 10 powi k"
proof -
  assume "k \<le> K"
  then have e: "K = int (nat (K - k)) + k" by simp
  have "(10::rat) powi K = 10 powi (int (nat (K - k)) + k)" using arg_cong [where f="\<lambda>t. (10::rat) powi t", OF e] .
  also have "\<dots> = 10 powi int (nat (K - k)) * 10 powi k" by (rule power_int_add) simp
  also have "(10::rat) powi int (nat (K - k)) = of_int (10 ^ nat (K - k))"
    by (metis power_int_of_nat of_int_numeral of_int_power)
  finally show ?thesis .
qed

lemma ceiling_bound:
  assumes "0 < x"
  shows "\<lceil>x / 10 powi (log10_floor x + 1 - int n)\<rceil> \<le> 10 ^ n"
proof -
  define L where "L = log10_floor x"
  have "x < 10 powi (L + 1)" using log10_floor(2) [OF assms(1)] by (simp add: L_def)
  also have "(10::rat) powi (L + 1) = of_int (10 ^ nat (L + 1 - (L + 1 - int n))) * 10 powi (L + 1 - int n)"
    by (rule powi_ten_split) simp
  also have "nat (L + 1 - (L + 1 - int n)) = n" by simp
  finally have "x / 10 powi (L + 1 - int n) \<le> of_int (10 ^ n)" by (simp add: divide_le_eq)
  then show ?thesis unfolding L_def by (rule ceiling_le)
qed

lemma shortest_bound:
  assumes x: "0 < x" and "n \<le> 17"
  shows "fst (shortest n x) \<le> 10 ^ 17"
  using assms(2)
proof (induction rule: inc_induct)
  case base
  let ?s = "x / 10 powi (log10_floor x + 1 - int 17)"
  have "\<lceil>?s\<rceil> \<le> 10 ^ 17" by (rule ceiling_bound [OF x])
  with round_even_ceiling [of ?s] have "round_even ?s \<le> 10 ^ 17" by (rule order_trans)
  then show ?case using shortest_cases [where x=x and n=17] by auto
next
  case (step m)
  let ?s = "x / 10 powi (log10_floor x + 1 - int m)"
  have "\<lceil>?s\<rceil> \<le> 10 ^ m" by (rule ceiling_bound [OF x])
  moreover have "(10::int) ^ m \<le> 10 ^ 17" using step(2) by (intro power_increasing) simp_all
  ultimately have "\<lceil>?s\<rceil> \<le> 10 ^ 17" by (rule order_trans)
  moreover have "\<lfloor>?s\<rfloor> \<le> \<lceil>?s\<rceil>" by (rule floor_le_ceiling)
  ultimately show ?case using shortest_cases [where x=x and n=m] step(2,3) by auto
qed

lemma strip_zeros_normal:
  "strip_zeros d k = (d', k') \<Longrightarrow> 0 < d \<Longrightarrow> 0 < d' \<and> d' \<le> d \<and> \<not> 10 dvd d'"
proof (induction d k rule: strip_zeros.induct)
  case (1 d k)
  show ?case
  proof (cases "d \<noteq> 0 \<and> d mod 10 = 0")
    case True
    then have "strip_zeros (d div 10) (k + 1) = (d', k')" using "1.prems"(1) by (simp add: strip_zeros.simps [of d k])
    moreover have "0 < d div 10" "d div 10 \<le> d" using "1.prems"(2) True by (auto simp: pos_imp_zdiv_pos_iff)
    ultimately show ?thesis using "1.IH" [OF True] by fastforce
  next
    case False
    then have "strip_zeros d k = (d, k)" by (simp only: strip_zeros.simps [of d k] if_False)
    then show ?thesis using "1.prems" False by (auto simp: dvd_eq_mod_eq_0)
  qed
qed

lemma grid_below:
  fixes x :: rat and D :: int
  assumes "0 < x" "1 \<le> m" "D < 10 ^ m" "of_int D * 10 powi K \<le> x"
  defines "k \<equiv> log10_floor x + 1 - int m"
  shows "(of_int D * 10 powi K :: rat) \<le> of_int \<lfloor>x / 10 powi k\<rfloor> * 10 powi k"
proof (cases "k \<le> K")
  case True
  define j where "j = D * 10 ^ nat (K - k)"
  have y: "of_int D * 10 powi K = of_int j * (10::rat) powi k" by (simp add: j_def powi_ten_split [OF True])
  then have "of_int j \<le> x / 10 powi k" using assms(4) by (simp add: le_divide_eq)
  then have "j \<le> \<lfloor>x / 10 powi k\<rfloor>" by (simp only: le_floor_iff)
  then show ?thesis by (simp add: y)
next
  case False
  define L where "L = log10_floor x"
  have Lx: "10 powi L \<le> x" using log10_floor(1) [OF assms(1)] by (simp add: L_def)
  have kL: "k \<le> L" using assms(2) by (simp add: k_def L_def)
  have p: "(10::rat) powi L = of_int (10 ^ nat (L - k)) * 10 powi k" by (rule powi_ten_split [OF kL])
  have "of_int (10 ^ nat (L - k)) \<le> x / 10 powi k" using Lx p by (simp add: le_divide_eq)
  then have j: "10 ^ nat (L - k) \<le> \<lfloor>x / 10 powi k\<rfloor>" by (simp only: le_floor_iff)
  have "of_int D * 10 powi K < of_int (10 ^ m) * (10::rat) powi K" using assms(3) by simp
  also have "of_int (10 ^ m) * (10::rat) powi K = 10 powi (int m + K)"
    by (simp add: power_int_add)
  also have "\<dots> \<le> 10 powi L" using False by (intro powi_ten_mono) (simp add: k_def L_def)
  also have "\<dots> \<le> of_int \<lfloor>x / 10 powi k\<rfloor> * 10 powi k" using p j by simp
  finally show ?thesis by simp
qed

lemma grid_above:
  fixes x :: rat and D :: int
  assumes "0 < x" "1 \<le> m" "D < 10 ^ m" "x \<le> of_int D * 10 powi K"
  defines "k \<equiv> log10_floor x + 1 - int m"
  shows "of_int \<lceil>x / 10 powi k\<rceil> * 10 powi k \<le> (of_int D * 10 powi K :: rat)"
proof (cases "k \<le> K")
  case True
  define j where "j = D * 10 ^ nat (K - k)"
  have y: "of_int D * 10 powi K = of_int j * (10::rat) powi k" by (simp add: j_def powi_ten_split [OF True])
  then have "x / 10 powi k \<le> of_int j" using assms(4) by (simp add: divide_le_eq)
  then have "\<lceil>x / 10 powi k\<rceil> \<le> j" by (rule ceiling_le)
  then show ?thesis by (simp add: y)
next
  case False
  have "of_int D * 10 powi K < of_int (10 ^ m) * (10::rat) powi K" using assms(3) by simp
  also have "of_int (10 ^ m) * (10::rat) powi K = 10 powi (int m + K)"
    by (simp add: power_int_add)
  also have "\<dots> \<le> 10 powi log10_floor x" using False by (intro powi_ten_mono) (simp add: k_def)
  also have "\<dots> \<le> x" using log10_floor(1) [OF assms(1)] .
  finally show ?thesis using assms(4) by simp
qed

lemma floor_grid_le: "(0::rat) < p \<Longrightarrow> of_int \<lfloor>x / p\<rfloor> * p \<le> x"
proof -
  assume p: "0 < p"
  have "of_int \<lfloor>x / p\<rfloor> \<le> x / p" by (rule of_int_floor_le)
  then have "of_int \<lfloor>x / p\<rfloor> * p \<le> x / p * p" using p by (intro mult_right_mono) simp_all
  then show ?thesis using p by simp
qed

lemma ceiling_grid_ge: "(0::rat) < p \<Longrightarrow> x \<le> of_int \<lceil>x / p\<rceil> * p"
proof -
  assume p: "0 < p"
  have "x / p \<le> of_int \<lceil>x / p\<rceil>" by (rule le_of_int_ceiling)
  then have "x / p * p \<le> of_int \<lceil>x / p\<rceil> * p" using p by (intro mult_right_mono) simp_all
  then show ?thesis using p by simp
qed

lemma candidate_qualifies:
  assumes x: "is_b64 x" "0 < x" and m: "1 \<le> m" "0 < D" "D < 10 ^ m"
    and y: "round_b64 (of_int D * 10 powi K) = x"
  defines "k \<equiv> log10_floor x + 1 - int m"
  shows "round_b64 (of_int \<lfloor>x / 10 powi k\<rfloor> * 10 powi k) = x \<or> round_b64 (of_int \<lceil>x / 10 powi k\<rceil> * 10 powi k) = x"
proof (cases "of_int D * 10 powi K \<le> x")
  case True
  let ?g = "of_int \<lfloor>x / 10 powi k\<rfloor> * 10 powi k"
  have "(of_int D * 10 powi K :: rat) \<le> ?g" unfolding k_def by (rule grid_below [OF x(2) m(1,3) True])
  moreover have "?g \<le> x" by (rule floor_grid_le) simp
  moreover have "x < b64_threshold" by (rule b64_below_threshold [OF x(1)])
  moreover have "(0::rat) \<le> of_int D * 10 powi K" using m(2) by simp
  ultimately have "round_b64 (of_int D * 10 powi K) \<le> round_b64 ?g" "round_b64 ?g \<le> round_b64 x"
    by (auto intro!: round_b64_mono)
  then show ?thesis using y round_b64_id [OF x(1)] by simp
next
  case False
  let ?g = "of_int \<lceil>x / 10 powi k\<rceil> * 10 powi k"
  have le: "x \<le> of_int D * 10 powi K" using False by simp
  have "?g \<le> (of_int D * 10 powi K :: rat)" unfolding k_def by (rule grid_above [OF x(2) m(1,3) le])
  moreover have "x \<le> ?g" by (rule ceiling_grid_ge) simp
  moreover have "of_int D * 10 powi K < b64_threshold" by (rule round_b64_preimage(2) [OF x y])
  ultimately have "round_b64 x \<le> round_b64 ?g" "round_b64 ?g \<le> round_b64 (of_int D * 10 powi K)"
    using x(2) by (auto intro!: round_b64_mono)
  then show ?thesis using y round_b64_id [OF x(1)] by simp
qed

lemma shortest_by:
  assumes x: "is_b64 x" "0 < x" and m: "1 \<le> m" "0 < D" "D < 10 ^ m"
    and y: "round_b64 (of_int D * 10 powi K) = x" and "n \<le> m"
  shows "fst (shortest n x) \<le> 10 ^ m"
proof (cases "17 \<le> m")
  case True
  show ?thesis
  proof (cases "17 \<le> n")
    case True
    let ?s = "x / 10 powi (log10_floor x + 1 - int n)"
    have "round_even ?s \<le> 10 ^ n" using round_even_ceiling [of ?s] ceiling_bound [OF x(2), of n] by linarith
    moreover have "(10::int) ^ n \<le> 10 ^ m" using assms(7) by (rule power_increasing) simp
    ultimately have "round_even ?s \<le> 10 ^ m" by (rule order_trans)
    then show ?thesis using shortest_cases [where x=x and n=n] True by auto
  next
    case False
    have "(10::int) ^ 17 \<le> 10 ^ m" using \<open>17 \<le> m\<close> by (rule power_increasing) simp
    then show ?thesis using shortest_bound [OF x(2), of n] False by simp
  qed
next
  case False
  show ?thesis
    using assms(7)
  proof (induction rule: inc_induct)
    case base
    let ?s = "x / 10 powi (log10_floor x + 1 - int m)"
    have c: "\<lceil>?s\<rceil> \<le> 10 ^ m" by (rule ceiling_bound [OF x(2)])
    moreover have "\<lfloor>?s\<rfloor> \<le> 10 ^ m" using floor_le_ceiling [of ?s] c by (rule order_trans)
    ultimately show ?case using shortest_cases [where x=x and n=m] candidate_qualifies [OF x m y] False by auto
  next
    case (step n)
    let ?s = "x / 10 powi (log10_floor x + 1 - int n)"
    have "\<lceil>?s\<rceil> \<le> 10 ^ n" by (rule ceiling_bound [OF x(2)])
    moreover have "(10::int) ^ n \<le> 10 ^ m" using step(2) by (intro power_increasing) simp_all
    ultimately have c: "\<lceil>?s\<rceil> \<le> 10 ^ m" by (rule order_trans)
    moreover have "\<lfloor>?s\<rfloor> \<le> 10 ^ m" using floor_le_ceiling [of ?s] c by (rule order_trans)
    moreover have "round_even ?s \<le> 10 ^ m" using round_even_ceiling [of ?s] c by (rule order_trans)
    ultimately show ?case using shortest_cases [where x=x and n=n] step(3) by auto
  qed
qed

lemma ndig_less: "0 < d \<Longrightarrow> d < 10 ^ m \<Longrightarrow> ndig 10 d \<le> m"
proof -
  assume d: "0 < d" "d < 10 ^ m"
  have a: "(10::int) ^ (ndig 10 d - 1) \<le> d" "0 < ndig 10 d"
    using ndig_bounds [of d 10] d by (simp_all add: ndig.simps [of 10 d])
  have "(10::int) ^ (ndig 10 d - 1) < 10 ^ m" using a(1) d(2) by (rule le_less_trans)
  then have "ndig 10 d - 1 < m" by (rule power_less_imp_less_exp [rotated]) simp
  then show ?thesis using a(2) by simp
qed

lemma round_range_recovers:
  assumes "is_b64 x" "0 < x" "round_b64 c = x"
  shows "round_range neg c = Fin neg x"
proof -
  have "underflow_bound = 2 powi (-1075)" by (simp add: underflow_bound_def power_int_def power_one_over)
  then show ?thesis using round_b64_preimage [OF assms] assms(3)
    by (simp add: round_range_def overflow_bound_threshold)
qed

text \<open>\<open>float(repr(x)) == x\<close>, with the sign of a zero.\<close>

lemma float_repr_roundtrip:
  assumes "is_b64 x"
  shows "py_float (float_repr neg x) = Inr (Fin neg x)"
proof (cases "x = 0")
  case True
  have "py_float ((if neg then [45] else []) @ [48] @ 46 # [48]) = Inr (round_range neg (decimal_value ([48] @ [48]) (- int (length [48::nat]))))"
    by (rule py_float_frac_text) (simp_all add: is_digit_def)
  then show ?thesis using True
    by (simp add: float_repr_def decimal_value_def digits_value_def round_range_def underflow_bound_def overflow_bound_def)
next
  case False
  then have x: "0 < x" using b64_le_max [OF assms] by simp
  obtain d k where sk: "shortest 1 x = (d, k)" by (cases "shortest 1 x")
  obtain d' k' where st: "strip_zeros d k = (d', k')" by (cases "strip_zeros d k")
  have q: "0 < d" "round_b64 (of_int d * 10 powi k) = x"
    using shortest_qualifies [OF assms x, of 1] sk by (simp_all add: qualifies_def)
  then have v: "of_int d' * 10 powi k' = (of_int d * 10 powi k :: rat)" "0 < d'"
    using strip_zeros_value [OF st] by simp_all
  then have "(of_nat (nat d') :: rat) * 10 powi k' = of_int d * 10 powi k" by simp
  moreover have "float_repr neg x = (if neg then [45] else []) @ format_short (nat d') k'"
    using False sk st by (simp add: float_repr_def)
  ultimately show ?thesis using py_float_format_short [of "nat d'" neg k'] v(2) round_range_recovers [OF assms x q(2)]
    by simp
qed


text \<open>
  Examples: \<open>repr\<close> on the values a reading produces: the double nearest to
  \<open>0.1\<close>, which \<open>float('0.1')\<close> returns, is written \<open>0.1\<close> (the
  shortest text that reads back as it, not its exact decimal expansion);
  \<open>1e15\<close> is written positionally with \<open>.0\<close> and \<open>1e16\<close> in exponent
  form; the negative zero keeps its sign.
\<close>

theorem float_repr_examples:
  "py_float (lit ''0.1'') = Inr (Fin False (3602879701896397 / 36028797018963968))
   \<and> float_repr False (3602879701896397 / 36028797018963968) = lit ''0.1''
   \<and> float_repr False (10 ^ 15) = lit ''1000000000000000.0''
   \<and> float_repr False (10 ^ 16) = lit ''1e+16''
   \<and> float_repr True 0 = lit ''-0.0''"
proof -
  have "round_b64 (1 / 10) = 3602879701896397 / 36028797018963968" by code_simp
  moreover have "py_float (lit ''0.1'') = Inr (Fin False (round_b64 (1 / 10)))" by (simp add: model_defs)
  moreover have "float_repr False (3602879701896397 / 36028797018963968) = lit ''0.1''" by code_simp
  moreover have "float_repr False (10 ^ 15) = lit ''1000000000000000.0''" by code_simp
  moreover have "float_repr False (10 ^ 16) = lit ''1e+16''" by code_simp
  moreover have "float_repr True 0 = lit ''-0.0''" by code_simp
  ultimately show ?thesis by simp
qed

text \<open>
  C29. Bounds of \<open>repr\<close>: the text of a positive binary64 value is laid out from
  a significand of at most 17 digits without a trailing zero and a power of
  ten, and that decimal rounds back to the value.
\<close>

theorem float_repr_significand:
  assumes "is_b64 x" and "0 < x"
  shows "\<exists>d k. float_repr neg x = (if neg then [45] else []) @ format_short (nat d) k
           \<and> 0 < d \<and> d < 10 ^ 17 \<and> \<not> 10 dvd d \<and> round_b64 (of_int d * 10 powi k) = x"
proof -
  obtain d0 k0 where sk: "shortest 1 x = (d0, k0)" by (cases "shortest 1 x")
  obtain d k where st: "strip_zeros d0 k0 = (d, k)" by (cases "strip_zeros d0 k0")
  have q: "0 < d0" "round_b64 (of_int d0 * 10 powi k0) = x"
    using shortest_qualifies [OF assms, of 1] sk by (simp_all add: qualifies_def)
  have b: "d0 \<le> 10 ^ 17" using shortest_bound [OF assms(2), of 1] sk by simp
  have n: "0 < d" "d \<le> d0" "\<not> 10 dvd d" using strip_zeros_normal [OF st q(1)] by simp_all
  have "d \<noteq> 10 ^ 17" using n(3) by auto
  then have "d < 10 ^ 17" using n(2) b by simp
  moreover have "round_b64 (of_int d * 10 powi k) = x" using strip_zeros_value [OF st] q by simp
  moreover have "float_repr neg x = (if neg then [45] else []) @ format_short (nat d) k"
    using assms(2) sk st by (simp add: float_repr_def)
  ultimately show ?thesis using n by blast
qed

theorem float_repr_significand_witness:
  "is_b64 (1 / 4) \<and> (0::rat) < 1 / 4
   \<and> (\<exists>d k. float_repr False (1 / 4) = format_short (nat d) k
           \<and> 0 < d \<and> d < 10 ^ 17 \<and> \<not> 10 dvd d \<and> round_b64 (of_int d * 10 powi k) = 1 / 4)"
proof -
  have "(1 / 4 :: rat) = of_nat 1 * 2 powi (-2)" by (simp add: power_int_def power2_eq_square)
  then have b: "is_b64 (1 / 4)" unfolding is_b64_def by fastforce
  have p: "(0::rat) < 1 / 4" by simp
  show ?thesis using float_repr_significand [OF b p, of False] b p by simp
qed

text \<open>
  C22. Shortest digits, the specification of \<open>repr\<close> (\<open>_Py_dg_dtoa\<close> mode 0):
  no decimal with fewer significant digits than the text of \<open>repr(x)\<close>
  reads back as \<open>x\<close>.
\<close>

theorem float_repr_shortest:
  assumes "is_b64 x" and "0 < x" and "0 < D" and "round_b64 (of_int D * 10 powi K) = x"
  shows "\<exists>d k. float_repr neg x = (if neg then [45] else []) @ format_short (nat d) k \<and> ndig 10 d \<le> ndig 10 D"
proof -
  define m where "m = ndig 10 D"
  have mb: "int 10 ^ (m - 1) \<le> D" "D < int 10 ^ m" using ndig_bounds [of D 10] assms(3) by (simp_all add: m_def)
  have m1: "1 \<le> m" using mb by (cases m) simp_all
  obtain d0 k0 where sk: "shortest 1 x = (d0, k0)" by (cases "shortest 1 x")
  obtain d k where st: "strip_zeros d0 k0 = (d, k)" by (cases "strip_zeros d0 k0")
  have q: "0 < d0" using shortest_qualifies [OF assms(1,2), of 1] sk by (simp add: qualifies_def)
  have "d0 \<le> 10 ^ m" using shortest_by [OF assms(1,2) m1 assms(3) _ assms(4) m1] mb(2) sk by simp
  moreover have n: "0 < d" "d \<le> d0" "\<not> 10 dvd d" using strip_zeros_normal [OF st q] by simp_all
  moreover have "10 dvd ((10::int) ^ m)" using m1 by (simp add: dvd_power)
  ultimately have "d < 10 ^ m" by (metis order.not_eq_order_implies_strict order_trans)
  then have "ndig 10 d \<le> m" using n(1) by (rule ndig_less [rotated])
  moreover have "float_repr neg x = (if neg then [45] else []) @ format_short (nat d) k"
    using assms(2) sk st by (simp add: float_repr_def)
  ultimately show ?thesis unfolding m_def by blast
qed

theorem float_repr_shortest_witness:
  "is_b64 (1 / 4) \<and> (0::rat) < 1 / 4 \<and> (0::int) < 25 \<and> round_b64 (of_int 25 * 10 powi (-2)) = 1 / 4
   \<and> (\<exists>d k. float_repr False (1 / 4) = format_short (nat d) k \<and> ndig 10 d \<le> ndig 10 25)"
proof -
  have "(1 / 4 :: rat) = of_nat 1 * 2 powi (-2)" by (simp add: power_int_def power2_eq_square)
  then have b: "is_b64 (1 / 4)" unfolding is_b64_def by fastforce
  have p: "(0::rat) < 1 / 4" "(0::int) < 25" by simp_all
  have r: "round_b64 (of_int 25 * 10 powi (-2)) = 1 / 4" by code_simp
  show ?thesis using float_repr_shortest [OF b p(1) p(2) r, of False] b p r by simp
qed

end
