(* ===== verification/Spec2Isabelle.thy ===== *)
theory Spec2Isabelle
  imports Server Serial FloatRepr
begin

text \<open>
  \<^bold>\<open>A verification library for the sensor dashboard \<open>src/app.py\<close>.\<close>

  \<^medskip>
  \<^bold>\<open>The program.\<close> \<open>src/app.py\<close> is one Flask module. At import it opens
  the serial port (lines 12 to 18), trains two random forests on a CSV file
  (lines 21 to 50) and exits if the file or a column is missing, creates the
  shared dictionary \<open>sensor_data\<close> with placeholders (line 54), starts the
  background thread \<open>read_arduino\<close> if the port opened (lines 98 to 101)
  and, run as a script, serves HTTP in debug mode (lines 114 to 115). The thread reads one line per iteration,
  decodes, strips and splits it, converts three fields with \<open>float\<close>,
  stores them and the two predictions into the dictionary key by key (lines
  57 to 95); the route \<open>/data\<close> returns \<open>jsonify(sensor_data)\<close>
  (lines 109 to 112) and the route \<open>/\<close> renders the template
  \<open>index.html\<close> (lines 104 to 107).

  \<^medskip>
  \<^bold>\<open>Theories and what they model.\<close>
  \<^item> \<open>Prelude\<close>: the types \<open>byte\<close> (\<open>8 word\<close>), \<open>pystr\<close> (a
    Python \<open>str\<close> as a list of code points), the exception classes
    \<open>exn\<close> the program raises or catches (\<open>is_ValueError\<close> is the
    \<open>except ValueError\<close> test, \<open>UnicodeDecodeError\<close> included), the
    console and sleep effects, shared list lemmas.
  \<^item> \<open>Utf8\<close>: \<open>bytes.decode('utf-8')\<close> of line 64 as \<open>utf8_decode\<close>
    (the strict decoder, \<open>None\<close> for \<open>UnicodeDecodeError\<close>), with
    \<open>utf8_encode\<close> as the sender's encoding.
  \<^item> \<open>PyStr\<close>: \<open>str.strip()\<close> (\<open>py_strip\<close>, with Python's
    \<open>isspace\<close>) and \<open>str.split(',')\<close> (\<open>py_split\<close>).
  \<^item> \<open>Binary64\<close>: the finite binary64 magnitudes (\<open>is_b64\<close>) and
    correctly rounded conversion of a rational to them, ties to even
    (\<open>round_b64\<close>, computed from bit lengths by \<open>log_floor\<close> and
    \<open>round_even\<close>), the rounding step of \<open>_Py_dg_strtod\<close>.
  \<^item> \<open>PyFloat\<close>: \<open>float(str)\<close> of line 69 as CPython's
    \<open>PyFloat_FromString\<close> (\<open>py_float\<close>), whose finite results are
    rounded by \<open>round_b64\<close> (\<open>round_range\<close>); \<open>show_decimal\<close> is the
    sender's number format.
  \<^item> \<open>FloatRepr\<close>: \<open>float.__repr__\<close>, which \<open>jsonify\<close> (line 112)
    uses for every finite float: the shortest round-tripping digits of
    \<open>_Py_dg_dtoa\<close> mode 0 (\<open>shortest\<close>, \<open>strip_zeros\<close>) laid out by
    \<open>format_float_short\<close> (\<open>format_short\<close>, \<open>exp_digits\<close>,
    \<open>float_repr\<close>). \<open>Query\<close> keeps the text of a float as a parameter
    \<open>fr\<close> of \<open>json_text\<close>; this theory instantiates it with
    \<open>float_repr\<close>.
  \<^item> \<open>SensorData\<close>: the dictionary as the record \<open>sensor_data\<close>, its
    values as \<open>pyval\<close>, an item assignment as \<open>set_field\<close>.
  \<^item> \<open>Classifier\<close>: the trainer of lines 21 to 50 (\<open>train_models\<close>:
    \<open>strip_columns\<close>, \<open>select_columns\<close>, \<open>fit_classifier\<close>,
    \<open>training_handler\<close>) and \<open>predict\<close> (\<open>predict_one\<close>).
  \<^item> \<open>Ingest\<close>: one iteration of \<open>read_arduino\<close> (\<open>try_body\<close>,
    \<open>process_line\<close>, \<open>predict_writes\<close>, \<open>handle_exn\<close>,
    \<open>ingest_iter\<close>) and the loop over the serial events
    (\<open>ingest_run\<close>, \<open>read_arduino\<close>).
  \<^item> \<open>Query\<close>: \<open>/data\<close> (\<open>data_route\<close>, \<open>to_json\<close>,
    \<open>json_text\<close>, \<open>escape_char\<close>) and a JSON string reader
    (\<open>json_unescape\<close>) for the client side.
  \<^item> \<open>System\<close>: start-up (\<open>open_serial\<close>, \<open>startup\<close>) and the
    thread and the request handler as an interleaving (\<open>exec\<close>,
    \<open>run\<close>, \<open>reachable\<close>) of atomic steps at the granularity of CPython's
    global interpreter lock: one step per item assignment, one per request.
  \<^item> \<open>Serial\<close>: \<open>arduino.readline()\<close> of line 64 on the port opened
    with \<open>timeout=1\<close> (line 13). pySerial 3's \<open>Serial\<close> inherits
    \<open>readline\<close> from \<open>io.IOBase\<close>: \<open>read(1)\<close> until a newline or an
    empty read (\<open>readline_loop\<close>, a \<open>partial_function (option)\<close>,
    and \<open>readline\<close>), each \<open>read(1)\<close> waiting at most one second
    (\<open>read1\<close>) on a \<open>port\<close> whose future input is an infinite stream
    of bytes with their arrival times; successive calls are
    \<open>readlines\<close>. \<open>stops\<close> and \<open>clock_at\<close> describe where a call
    stops.
  \<^item> \<open>Server\<close>: the Flask application and the server of line 115.
    Werkzeug's URL matching of the two rules (\<open>url_rules\<close>,
    \<open>path_part\<close>, \<open>merge_slashes\<close>, \<open>match_url\<close>), Flask's dispatch
    with its automatic \<open>HEAD\<close> and \<open>OPTIONS\<close> and the 500 of a failing
    view (\<open>dispatch\<close>, \<open>view\<close>), the dashboard view (\<open>index\<close>,
    \<open>render_template\<close> over a template store \<open>tpl\<close>), the bodies sent (\<open>body_text\<close>), and \<open>app.run\<close> with its
    arguments (\<open>app_run\<close>, \<open>main\<close>, \<open>serve\<close>). Each request runs
    in its own thread of the server; reading the record is the \<open>Get\<close> step
    of \<open>System\<close>, and \<open>dispatch\<close> is applied to the record a state holds.
  \<^item> this theory: properties that span the components.

  \<^medskip>
  \<^bold>\<open>How state and effects are represented.\<close> Module globals and the
  thread's local \<open>line\<close> are record fields passed explicitly; an exception
  is a value (\<open>exn + _\<close> or \<open>exn option\<close>) and every \<open>except\<close> clause
  is a branch; printed messages and sleeps are a list of \<open>effect\<close>s. The
  infinite loop is \<open>ingest_run\<close> over a finite list of serial events (any
  finite prefix of a run of the thread), so it needs no fuel; a thread that
  has stopped ignores the rest of the list. The loop inside \<open>readline\<close>
  is a \<open>partial_function (option)\<close>, where \<open>None\<close> is a call that
  never returns; \<open>Serial.readline_returns_iff\<close> says exactly when it
  returns, and a sender that never pauses and never ends a line keeps it
  from returning. Time is in milliseconds; the timeout is the source's one
  second.

  \<^medskip>
  \<^bold>\<open>What is proved.\<close> Each component theory ends with its properties:
  the decoder accepts exactly the UTF-8 encodings of scalar-value strings;
  strip and split behave as Python's; \<open>float\<close> reads the sender's format
  back exactly and accepts \<open>nan\<close> and \<open>inf\<close>; each branch of an iteration
  (valid line, malformed line, decoding error with and without a bound
  \<open>line\<close>, read error, failing prediction) has its exact effect on the
  record, on \<open>line\<close>, on the thread and on the console; the trainer's
  exits and the columns it trains on; the JSON the route answers and when it
  answers 500, and that a JSON reader recovers every label exactly; the
  reply to every request (status codes, 404 and 405, HEAD as GET without
  body, the indented JSON of debug mode), and that only \<open>/data\<close> reads
  the record; exactly when \<open>readline\<close> returns, what it returns (the
  bytes in their order of arrival, up to a newline or a pause of more than a
  second), how long it takes (at most one second per byte, with no bound
  independent of the line), and that successive calls lose no byte; that every finite \<open>float\<close> result is a binary64
  value, the closest one to the decimal read (refinement of the IEEE
  specification \<open>is_closest\<close>); that \<open>repr\<close> writes at most 17
  significant digits that round back to the value, and no more digits than
  any decimal that reads back as the value (the specification of
  \<open>_Py_dg_dtoa\<close> mode 0), and its text on sample values; that \<open>split\<close> equals its reference definition;
  refinement of the iteration by its fine-grained steps, an
  invariant of all reachable states (each float stored is a binary64
  value), and a reachable torn read. This theory
  composes them: the spec's end-to-end scenario down to the bytes of the
  response, the effect of a duplicated column name from start-up to every
  later reading, the acceptance of a line cut inside its last field, and,
  from the bytes on the port to the record, that a pause of the sender
  inside the soil field stores the truncated value,
  that in every reachable state of thread and server only the dashboard can
  answer 500, and that a client of \<open>/data\<close> reads every stored
  temperature back exactly from the text it receives (\<open>float\<close> of
  \<open>repr\<close>, through \<open>FloatRepr.float_repr_roundtrip\<close>).

  \<^medskip>
  \<^bold>\<open>Bounds.\<close> The digit search of \<open>repr\<close> stops by 17 digits: at 17
  digits the nearest candidate lies within \<open>x / 2^54\<close> of \<open>x\<close>
  (\<open>10^16 > 2^53\<close>), and a rational that near a binary64 value rounds to
  it (\<open>Binary64.round_b64_recover\<close>, from the gap of \<open>x / 2^53\<close>
  between neighbouring values). \<open>shortest\<close> is a \<open>function\<close> with the
  measure \<open>17 - n\<close>. The serial port carries no fuel or size bound: its
  input is an infinite stream, so that a call of \<open>readline\<close> can fail to
  return, and the theorems say exactly when it does. The event loop of the
  thread runs over finite lists of events, any finite prefix of a run.

  \<^medskip>
  \<^bold>\<open>Not modelled.\<close> The random forest itself (a fitted model is its feature
  names and an arbitrary decision function \<open>decide\<close>, and training is an
  arbitrary function \<open>fit\<close>); \<open>pd.read_csv\<close> (its result or exception is
  an input); binary64 arithmetic other than conversion (the program does
  none on readings), and the tie rule of \<open>_Py_dg_dtoa\<close> between two
  shortest candidates at the same distance (the model picks the even one);
  CPython's mapping of non-ASCII Unicode decimal digits in \<open>float\<close>;
  of the serial port, the operating system's driver (the arrival time of each
  byte in its buffer is an input), a disconnected device (its
  \<open>SerialException\<close> is an event of \<open>Ingest\<close>), and the link from
  \<open>readline\<close> to the thread's events other than by composition in
  \<open>serial_pause_truncates\<close>; of Flask and Werkzeug, the HTML text of their error pages and
  of the debugger, the debugger's interactive console, query strings and
  request bodies (neither route reads them), and the socket layer of the
  server; the \<open>templates\<close> folder, which is not Python source: the
  template store \<open>tpl\<close> is a parameter (whether \<open>index.html\<close> is there
  and what it renders to).
\<close>

text \<open>
  C5. The spec's scenario, end to end: the line \<open>25.0,60.0,40.0\<close> (with the
  terminator \<open>\r\n\<close>) read by the thread, with models fitted on the three
  feature columns that map this reading to \<open>Wheat\<close> and \<open>Yes\<close>, makes the
  next request answer exactly the compact JSON text below, the readings
  written by \<open>float.__repr__\<close> (\<open>float_repr\<close>).
\<close>

theorem scenario_wheat:
  assumes "feature_names cm = feature_columns" and "feature_names im = feature_columns"
    and "decide cm [Fin False 25, Fin False 60, Fin False 40] = Inr (PyStr (lit ''Wheat''))"
    and "decide im [Fin False 25, Fin False 60, Fin False 40] = Inr (PyStr (lit ''Yes''))"
  shows "\<exists>s' r. run (Some cm) (Some im) (initial_sys True)
            [Begin (Readline (utf8_encode (lit ''25.0,60.0,40.0'' @ [13, 10]))),
             WriteNext, WriteNext, WriteNext, WriteNext, WriteNext, Finish, Get] = Some (s', [r])
          \<and> response_body False float_repr r =
             Some (lit ''{\"advice\":\"Yes\",\"crop\":\"Wheat\",\"hum\":60.0,\"soil\":40.0,\"temp\":25.0}'' @ [10])"
proof -
  have fr: "float_repr False 25 = lit ''25.0''" "float_repr False 60 = lit ''60.0''"
    "float_repr False 40 = lit ''40.0''"
    by code_simp+
  have dec: "utf8_decode (utf8_encode (lit ''25.0,60.0,40.0'' @ [13, 10])) = Some (lit ''25.0,60.0,40.0'' @ [13, 10])"
    by (simp add: utf8_decode.simps model_defs)
  have strip: "py_strip (lit ''25.0,60.0,40.0'' @ [13, 10]) = lit ''25.0,60.0,40.0''"
    by (simp add: model_defs)
  have split: "py_split 44 (py_strip (lit ''25.0,60.0,40.0'' @ [13, 10])) = [lit ''25.0'', lit ''60.0'', lit ''40.0'']"
    by (simp add: strip model_defs)
  have f: "py_float (lit ''25.0'') = Inr (Fin False 25)" "py_float (lit ''60.0'') = Inr (Fin False 60)"
    "py_float (lit ''40.0'') = Inr (Fin False 40)"
    by (simp_all add: model_defs)
  have p: "predict_one cm feature_columns [Fin False 25, Fin False 60, Fin False 40] = Inr (PyStr (lit ''Wheat''))"
    "predict_one im feature_columns [Fin False 25, Fin False 60, Fin False 40] = Inr (PyStr (lit ''Yes''))"
    using assms(1-4) by (simp_all add: predict_one_def)
  have tb: "try_body (Some cm) (Some im) None (Readline (utf8_encode (lit ''25.0,60.0,40.0'' @ [13, 10]))) =
      (None, Some (lit ''25.0,60.0,40.0''),
       [(FTemp, PyFloat (Fin False 25)), (FHum, PyFloat (Fin False 60)), (FSoil, PyFloat (Fin False 40)),
        (FCrop, PyStr (lit ''Wheat'')), (FAdvice, PyStr (lit ''Yes''))])"
    using try_body_valid [OF dec split f p, of None, unfolded strip] .
  show ?thesis
    using tb fr
    by (simp add: initial_sys_def initial_sensor_data_def data_route_def to_json_def sort_dict_items
        response_body_def json_quote_def escape_char_def float_str_def)
qed

theorem scenario_wheat_witness:
  "\<exists>s' r. run (Some \<lparr>feature_names = feature_columns, decide = \<lambda>row. Inr (PyStr (lit ''Wheat''))\<rparr>) (Some \<lparr>feature_names = feature_columns, decide = \<lambda>row. Inr (PyStr (lit ''Yes''))\<rparr>) (initial_sys True)
            [Begin (Readline (utf8_encode (lit ''25.0,60.0,40.0'' @ [13, 10]))),
             WriteNext, WriteNext, WriteNext, WriteNext, WriteNext, Finish, Get] = Some (s', [r])
          \<and> response_body False float_repr r =
             Some (lit ''{\"advice\":\"Yes\",\"crop\":\"Wheat\",\"hum\":60.0,\"soil\":40.0,\"temp\":25.0}'' @ [10])"
  by (rule scenario_wheat) simp_all

text \<open>
  C16. A dataset in which a feature column name occurs twice after stripping
  starts the server normally, and then every well-formed sensor line leaves
  the record with the new readings and the old labels and is reported as
  non-numeric data: the dashboard never shows a recommendation.
\<close>

theorem duplicate_column_tears:
  assumes "startup port (Inr raw) fit = (Serving hp cm im, out)"
    and "n \<in> set feature_columns" and "2 \<le> count_list (map py_strip (header raw)) n"
    and "utf8_decode bs = Some txt" and "py_split 44 (py_strip txt) = [a, b, c]"
    and "py_float a = Inr t" "py_float b = Inr h" "py_float c = Inr s"
  shows "ingest_iter (Some cm) (Some im) st (Readline bs) =
           (st\<lparr>sensor := (sensor st)\<lparr>temp := PyFloat t, hum := PyFloat h, soil := PyFloat s\<rparr>,
               line_var := Some (py_strip txt)\<rparr>, [Print (NonNumeric (py_strip txt))])"
proof -
  obtain out2 where tr: "train_models (Inr raw) fit = (Trained cm im, out2)"
    using startup_Serving [OF assms(1)] by blast
  have pf: "predict_one cm feature_columns [t, h, s]
           = Inl (ValueError (lit ''The feature names should match those that were passed during fit.''))"
    using train_models_duplicate [OF tr assms(2,3)] by blast
  have "process_line (Some cm) (Some im) (py_strip txt) =
          (Some (ValueError (lit ''The feature names should match those that were passed during fit.'')),
           [(FTemp, PyFloat t), (FHum, PyFloat h), (FSoil, PyFloat s)])"
    using assms(5-8) pf by (rule process_line_predict_fails)
  then show ?thesis
    by (simp add: ingest_iter_result [OF try_body_line [OF assms(4)]] handle_exn_def)
qed

theorem duplicate_column_tears_witness:
  "startup (Inr ()) (Inr \<lparr>header = [lit ''Temperature'', lit ''Humidity'', lit ''SoilMoisture'', lit ''Temperature '', lit ''Crop'', lit ''Irrigation_Needed''], cells = []\<rparr>) (\<lambda>t a b. Inr (\<lambda>row. Inr (PyStr (lit ''Wheat''))))
     = (Serving True \<lparr>feature_names = [lit ''Temperature'', lit ''Temperature'', lit ''Humidity'', lit ''SoilMoisture''], decide = \<lambda>row. Inr (PyStr (lit ''Wheat''))\<rparr> \<lparr>feature_names = [lit ''Temperature'', lit ''Temperature'', lit ''Humidity'', lit ''SoilMoisture''], decide = \<lambda>row. Inr (PyStr (lit ''Wheat''))\<rparr>, [Sleep 2])
   \<and> ingest_iter (Some \<lparr>feature_names = [lit ''Temperature'', lit ''Temperature'', lit ''Humidity'', lit ''SoilMoisture''], decide = \<lambda>row. Inr (PyStr (lit ''Wheat''))\<rparr>) (Some \<lparr>feature_names = [lit ''Temperature'', lit ''Temperature'', lit ''Humidity'', lit ''SoilMoisture''], decide = \<lambda>row. Inr (PyStr (lit ''Wheat''))\<rparr>) \<lparr>sensor = initial_sensor_data, line_var = None, running = True\<rparr>
       (Readline (utf8_encode (lit ''25.0,60.0,40.0'')))
     = (\<lparr>sensor = \<lparr>temp = PyFloat (Fin False 25), hum = PyFloat (Fin False 60), soil = PyFloat (Fin False 40),
                   crop = PyStr (lit ''N/A''), advice = PyStr (lit ''N/A'')\<rparr>,
         line_var = Some (lit ''25.0,60.0,40.0''), running = True\<rparr>,
        [Print (NonNumeric (lit ''25.0,60.0,40.0''))])"
proof -
  have st: "startup (Inr ()) (Inr \<lparr>header = [lit ''Temperature'', lit ''Humidity'', lit ''SoilMoisture'', lit ''Temperature '', lit ''Crop'', lit ''Irrigation_Needed''], cells = []\<rparr>) (\<lambda>t a b. Inr (\<lambda>row. Inr (PyStr (lit ''Wheat''))))
     = (Serving True \<lparr>feature_names = [lit ''Temperature'', lit ''Temperature'', lit ''Humidity'', lit ''SoilMoisture''], decide = \<lambda>row. Inr (PyStr (lit ''Wheat''))\<rparr> \<lparr>feature_names = [lit ''Temperature'', lit ''Temperature'', lit ''Humidity'', lit ''SoilMoisture''], decide = \<lambda>row. Inr (PyStr (lit ''Wheat''))\<rparr>, [Sleep 2])"
    by (simp add: model_defs)
  have dup: "lit ''Temperature'' \<in> set feature_columns"
    "2 \<le> count_list (map py_strip (header \<lparr>header = [lit ''Temperature'', lit ''Humidity'', lit ''SoilMoisture'', lit ''Temperature '', lit ''Crop'', lit ''Irrigation_Needed''], cells = []\<rparr>)) (lit ''Temperature'')"
    by (simp_all add: model_defs)
  have dec: "utf8_decode (utf8_encode (lit ''25.0,60.0,40.0'')) = Some (lit ''25.0,60.0,40.0'')"
    by (simp add: utf8_decode.simps model_defs)
  have strip: "py_strip (lit ''25.0,60.0,40.0'') = lit ''25.0,60.0,40.0''"
    by (simp add: model_defs)
  have split: "py_split 44 (py_strip (lit ''25.0,60.0,40.0'')) = [lit ''25.0'', lit ''60.0'', lit ''40.0'']"
    by (simp add: strip model_defs)
  have f: "py_float (lit ''25.0'') = Inr (Fin False 25)" "py_float (lit ''60.0'') = Inr (Fin False 60)"
    "py_float (lit ''40.0'') = Inr (Fin False 40)"
    by (simp_all add: model_defs)
  from duplicate_column_tears [OF st dup dec split f,
      of "\<lparr>sensor = initial_sensor_data, line_var = None, running = True\<rparr>", unfolded strip] st
  show ?thesis by (simp add: initial_sensor_data_def)
qed

lemma truncated_fields_stored:
  assumes "(if s < 0 then 2 else 1) \<le> j" and "j \<le> length (show_decimal s k3)"
  shows "\<exists>vt vh vs. py_float (show_decimal t k1) = Inr vt \<and> py_float (show_decimal h k2) = Inr vh
           \<and> py_float (take j (show_decimal s k3)) = Inr vs
           \<and> temp (sensor (fst (ingest_iter cm im st (Readline (utf8_encode
                  (show_decimal t k1 @ 44 # show_decimal h k2 @ 44 # take j (show_decimal s k3))))))) = PyFloat vt
           \<and> hum (sensor (fst (ingest_iter cm im st (Readline (utf8_encode
                  (show_decimal t k1 @ 44 # show_decimal h k2 @ 44 # take j (show_decimal s k3))))))) = PyFloat vh
           \<and> soil (sensor (fst (ingest_iter cm im st (Readline (utf8_encode
                  (show_decimal t k1 @ 44 # show_decimal h k2 @ 44 # take j (show_decimal s k3))))))) = PyFloat vs"
proof -
  let ?a = "show_decimal t k1" and ?b = "show_decimal h k2" and ?c = "take j (show_decimal s k3)"
  let ?l = "?a @ 44 # ?b @ 44 # ?c"
  have full: "(if m < 0 then 2 else 1) \<le> length (show_decimal m k)" for m :: int and k :: nat
  proof -
    obtain ip fp where "ip \<noteq> []"
      "show_decimal m k = (if m < 0 then [45] else []) @ ip @ (if k = 0 then [] else 46 # fp)"
      by (rule show_decimal_split [where m = m and k = k])
    then show ?thesis by (cases ip) auto
  qed
  obtain vt where vt: "py_float ?a = Inr vt"
    using py_float_show_prefix [OF full le_refl] by auto
  obtain vh where vh: "py_float ?b = Inr vh"
    using py_float_show_prefix [OF full le_refl] by auto
  obtain vs where vs: "py_float ?c = Inr vs"
    using py_float_show_prefix [OF assms] by auto
  have chars: "c = 44 \<or> c = 45 \<or> c = 46 \<or> is_digit c" if "c \<in> set ?l" for c
    using that by (auto dest: show_decimal_chars in_set_takeD)
  have dec: "utf8_decode (utf8_encode ?l) = Some ?l"
  proof -
    have "\<forall>c \<in> set ?l. scalar_value c"
      using chars by (fastforce simp: scalar_value_def is_digit_def)
    then show ?thesis using utf8_decode_encode_append [of ?l "[]"] by simp
  qed
  have strip: "py_strip ?l = ?l"
    using chars number_char_not_space by (intro py_strip_nospace) blast
  have nc: "\<forall>f \<in> set [?a, ?b, ?c]. 44 \<notin> set f"
    by (auto dest!: show_decimal_chars in_set_takeD simp: is_digit_def)
  have "py_split 44 ?l = [?a, ?b, ?c]"
    using split_join_acc [of "[?a, ?b, ?c]" 44] nc by (simp add: py_split_def)
  then have "py_split 44 (py_strip ?l) = [?a, ?b, ?c]" by (simp only: strip)
  from process_line_readings [OF this vt vh vs]
  have ws: "snd (snd (try_body cm im (line_var st) (Readline (utf8_encode ?l))))
              = [(FTemp, PyFloat vt), (FHum, PyFloat vh), (FSoil, PyFloat vs)] @ snd (predict_writes cm im [vt, vh, vs])"
    by (simp add: try_body_line [OF dec])
  show ?thesis
    using vt vh vs apply_writes_labels [OF predict_writes_labels]
    by (simp add: ingest_iter_sensor ws)
qed

text \<open>
  C18. A line cut inside its last field by a pause of the sender (the empty
  \<open>read(1)\<close> that ends \<open>readline\<close>; the microcontroller sent
  \<open>t,h,s\<close> in the format \<open>show_decimal\<close> and only a non-empty prefix
  of \<open>s\<close> came before the pause) is not ignored: every such prefix is a
  number for \<open>float()\<close>, and the three values, the truncated soil moisture
  included, are stored in the record whatever the models do.
\<close>

theorem truncated_line_accepted:
  assumes "(if s < 0 then 2 else 1) \<le> j" and "j \<le> length (show_decimal s k3)"
  shows "\<exists>vt vh vs. py_float (show_decimal t k1) = Inr vt \<and> py_float (show_decimal h k2) = Inr vh
           \<and> py_float (take j (show_decimal s k3)) = Inr vs
           \<and> temp (sensor (fst (ingest_iter cm im st (Readline (utf8_encode
                  (show_decimal t k1 @ 44 # show_decimal h k2 @ 44 # take j (show_decimal s k3))))))) = PyFloat vt
           \<and> hum (sensor (fst (ingest_iter cm im st (Readline (utf8_encode
                  (show_decimal t k1 @ 44 # show_decimal h k2 @ 44 # take j (show_decimal s k3))))))) = PyFloat vh
           \<and> soil (sensor (fst (ingest_iter cm im st (Readline (utf8_encode
                  (show_decimal t k1 @ 44 # show_decimal h k2 @ 44 # take j (show_decimal s k3))))))) = PyFloat vs"
  by (rule truncated_fields_stored [OF assms])

theorem truncated_line_accepted_witness:
  "soil (sensor (fst (ingest_iter None None \<lparr>sensor = initial_sensor_data, line_var = None, running = True\<rparr>
      (Readline (utf8_encode (lit ''25.0,60.0,4'')))))) = PyFloat (Fin False 4)"
proof -
  have sd: "show_decimal 250 1 = lit ''25.0''" "show_decimal 600 1 = lit ''60.0''" "take 1 (show_decimal 400 1) = lit ''4''"
    by (simp_all add: show_decimal_def nat_digits.simps)
  have "(if (400::int) < 0 then 2 else 1) \<le> (1::nat)" "1 \<le> length (show_decimal 400 1)"
    by (simp_all add: show_decimal_def nat_digits.simps)
  from truncated_line_accepted [OF this, of 250 1 600 1 None None "\<lparr>sensor = initial_sensor_data, line_var = None, running = True\<rparr>"]
  obtain vs where "py_float (take 1 (show_decimal 400 1)) = Inr vs"
    "soil (sensor (fst (ingest_iter None None \<lparr>sensor = initial_sensor_data, line_var = None, running = True\<rparr>
      (Readline (utf8_encode (show_decimal 250 1 @ 44 # show_decimal 600 1 @ 44 # take 1 (show_decimal 400 1))))))) = PyFloat vs"
    by blast
  note r = this [unfolded sd]
  have "py_float (lit ''4'') = Inr (Fin False 4)" by (simp add: model_defs)
  with r show ?thesis by simp
qed

text \<open>
  C17. From the port to the record: when the bytes of \<open>t,h,s\<close> reach the
  port each within a second of the one before and the sender then pauses for
  more than a second inside the soil field, after a non-empty prefix of it,
  the thread's \<open>readline\<close> returns exactly the bytes sent so far, leaves the
  rest on the port, and the iteration stores the truncated soil value.
\<close>

theorem serial_pause_truncates:
  assumes "pending p = zip ts (utf8_encode (show_decimal t k1 @ 44 # show_decimal h k2 @ 44 # take j (show_decimal s k3))) @- rest"
      and "length ts = length (utf8_encode (show_decimal t k1 @ 44 # show_decimal h k2 @ 44 # take j (show_decimal s k3)))"
      and "successively (\<lambda>x y. y \<le> x + serial_timeout) (clock p # ts)"
      and "fold max ts (clock p) + serial_timeout < fst (shd rest)"
      and "(if s < 0 then 2 else 1) \<le> j" and "j \<le> length (show_decimal s k3)"
  shows "\<exists>l p' vs. readline p = Some (l, p') \<and> l = utf8_encode (show_decimal t k1 @ 44 # show_decimal h k2 @ 44 # take j (show_decimal s k3)) \<and> pending p' = rest
           \<and> py_float (take j (show_decimal s k3)) = Inr vs
           \<and> soil (sensor (fst (ingest_iter cm im st (Readline l)))) = PyFloat vs"
proof -
  have "\<forall>c \<in> set (show_decimal t k1 @ 44 # show_decimal h k2 @ 44 # take j (show_decimal s k3)). c < 0x80 \<and> c \<noteq> 10"
    by (auto dest!: show_decimal_chars in_set_takeD simp: is_digit_def)
  then have "10 \<notin> set (utf8_encode (show_decimal t k1 @ 44 # show_decimal h k2 @ 44 # take j (show_decimal s k3)))" by (rule utf8_encode_no_newline)
  from readline_loop_timed [OF assms(1,2) this assms(3,4), of "[]"]
  have "readline p = Some (utf8_encode (show_decimal t k1 @ 44 # show_decimal h k2 @ 44 # take j (show_decimal s k3)),
          p\<lparr>clock := fold max ts (clock p) + serial_timeout, pending := rest\<rparr>)"
    by (simp add: readline_def)
  with truncated_fields_stored [OF assms(5,6), of t k1 h k2 cm im st] show ?thesis by auto
qed

theorem serial_pause_truncates_witness:
  "\<exists>l p'. readline \<lparr>clock = 0, pending = zip [0..<11] (utf8_encode (show_decimal 250 1 @ 44 # show_decimal 600 1 @ 44 # take 1 (show_decimal 400 1))) @- sconst (5000, 10)\<rparr> = Some (l, p')
     \<and> l = utf8_encode (lit ''25.0,60.0,4'')
     \<and> soil (sensor (fst (ingest_iter None None \<lparr>sensor = initial_sensor_data, line_var = None, running = True\<rparr>
         (Readline l)))) = PyFloat (Fin False 4)"
proof -
  have sd: "show_decimal 250 1 = lit ''25.0''" "show_decimal 600 1 = lit ''60.0''" "take 1 (show_decimal 400 1) = lit ''4''"
    by (simp_all add: show_decimal_def nat_digits.simps)
  have h: "length [0..<11] = length (utf8_encode (show_decimal 250 1 @ 44 # show_decimal 600 1 @ 44 # take 1 (show_decimal 400 1)))"
    "successively (\<lambda>x y. y \<le> x + serial_timeout) (clock \<lparr>clock = 0, pending = zip [0..<11] (utf8_encode (show_decimal 250 1 @ 44 # show_decimal 600 1 @ 44 # take 1 (show_decimal 400 1))) @- sconst (5000, 10)\<rparr> # [0..<11])"
    "fold max [0..<11] (clock \<lparr>clock = 0, pending = zip [0..<11] (utf8_encode (show_decimal 250 1 @ 44 # show_decimal 600 1 @ 44 # take 1 (show_decimal 400 1))) @- sconst (5000, 10)\<rparr>) + serial_timeout < fst (shd (sconst (5000::nat, 10::byte)))"
    "(if (400::int) < 0 then 2 else 1) \<le> (1::nat)" "1 \<le> length (show_decimal 400 1)"
     apply (unfold sd, simp add: utf8_encode_char_def)
    apply (simp_all add: serial_timeout_def upt_rec show_decimal_def nat_digits.simps)
    done
  have h0: "pending \<lparr>clock = 0, pending = zip [0..<11] (utf8_encode (show_decimal 250 1 @ 44 # show_decimal 600 1 @ 44 # take 1 (show_decimal 400 1))) @- sconst (5000, 10)\<rparr>
      = zip [0..<11] (utf8_encode (show_decimal 250 1 @ 44 # show_decimal 600 1 @ 44 # take 1 (show_decimal 400 1))) @- sconst (5000, 10)" by simp
  from serial_pause_truncates [OF h0 h, of None None "\<lparr>sensor = initial_sensor_data, line_var = None, running = True\<rparr>"]
  obtain l p' vs where r: "readline \<lparr>clock = 0, pending = zip [0..<11] (utf8_encode (show_decimal 250 1 @ 44 # show_decimal 600 1 @ 44 # take 1 (show_decimal 400 1))) @- sconst (5000, 10)\<rparr> = Some (l, p')"
    "l = utf8_encode (show_decimal 250 1 @ 44 # show_decimal 600 1 @ 44 # take 1 (show_decimal 400 1))" "py_float (take 1 (show_decimal 400 1)) = Inr vs"
    "soil (sensor (fst (ingest_iter None None \<lparr>sensor = initial_sensor_data, line_var = None, running = True\<rparr> (Readline l)))) = PyFloat vs"
    by blast
  have "py_float (lit ''4'') = Inr (Fin False 4)" by (simp add: model_defs)
  with r sd show ?thesis by auto
qed

text \<open>
  C24. The thread and the web server together: with classifiers whose labels
  \<open>json.dumps\<close> can serialise, in every reachable state of the program,
  torn records included, the only request that can fail with 500 is one for
  the dashboard \<open>/\<close>; \<open>/data\<close> never does.
\<close>

theorem reachable_only_dashboard_fails:
  assumes "reachable cm im hp s" and "labels_serializable cm" and "labels_serializable im"
      and "reply_code (dispatch tpl (shared s) rq) = 500"
  shows "path_part (path_info rq) = lit ''/''"
  using dispatch_500 [OF assms(4)] reachable_data_route_ok [OF assms(1-3)] by auto

theorem reachable_only_dashboard_fails_witness:
  "reply_code (dispatch (\<lambda>n. None) (shared (initial_sys True)) \<lparr>request_method = lit ''GET'', path_info = lit ''/''\<rparr>) = 500
   \<and> path_part (path_info \<lparr>request_method = lit ''GET'', path_info = lit ''/''\<rparr>) = lit ''/''"
proof -
  have "labels_serializable (Some \<lparr>feature_names = feature_columns, decide = \<lambda>row. Inr (PyStr (lit ''Wheat''))\<rparr>)"
       "labels_serializable (Some \<lparr>feature_names = feature_columns, decide = \<lambda>row. Inr (PyStr (lit ''Yes''))\<rparr>)"
    by (simp_all add: labels_serializable_def)
  moreover have code: "reply_code (dispatch (\<lambda>n. None) (shared (initial_sys True)) \<lparr>request_method = lit ''GET'', path_info = lit ''/''\<rparr>) = 500"
    by (simp add: dispatch_path map_of_url_rules rule_methods_def path_part_def ascii_upper_def view_def
        index_def render_template_def)
  ultimately have "path_part (path_info \<lparr>request_method = lit ''GET'', path_info = lit ''/''\<rparr>) = lit ''/''"
    by (rule reachable_only_dashboard_fails [OF reachable.init])
  with code show ?thesis by simp
qed


text \<open>What \<open>float()\<close> reads back from the text \<open>floatstr\<close> writes with
  \<open>float.__repr__\<close> for a float whose finite value is a binary64 value.\<close>

lemma float_str_readback:
  assumes "float_ok f"
  shows "py_float (float_str float_repr f) = Inr (case f of NaN _ \<Rightarrow> NaN False | _ \<Rightarrow> f)"
proof (cases f)
  case (Fin neg v)
  then have "is_b64 v" using assms by (simp add: float_ok_def)
  then show ?thesis using Fin float_repr_roundtrip by (simp add: float_str_def)
next
  case (Inf neg)
  then show ?thesis by (cases neg) (simp_all add: float_str_def model_defs)
next
  case (NaN neg)
  then show ?thesis by (simp add: float_str_def model_defs)
qed

lemma record_ok_json:
  assumes "record_ok cm im d" "labels_serializable cm" "labels_serializable im"
  shows "\<exists>j. json_of_pyval (get_field d fd) = Inr j"
  using record_ok_serializable [OF assms] json_of_pyval_ok by blast

text \<open>
  C6. End to end, from the serial line to a client of \<open>/data\<close>: in every
  reachable state whose temperature is a float, the body of \<open>/data\<close>, compact
  or indented as with \<open>debug=True\<close>, ends with the temperature member, and
  \<open>float()\<close> applied to its text gives back exactly the stored reading (a
  NaN reads back as a NaN, without its sign).
\<close>

theorem reachable_temp_readback:
  assumes "reachable cm im hp s" and "labels_serializable cm" and "labels_serializable im"
    and "temp (shared s) = PyFloat f"
  shows "\<exists>p t. response_body pretty float_repr (data_route (shared s))
                 = Some (p @ lit ''\"temp\":'' @ (if pretty then [32] else []) @ t
                         @ (if pretty then [10] else []) @ lit ''}'' @ [10])
             \<and> py_float t = Inr (case f of NaN _ \<Rightarrow> NaN False | _ \<Rightarrow> f)"
proof -
  have ok: "record_ok cm im (shared s)"
    using sys_inv_reachable [OF assms(1)] by (simp add: sys_inv_def)
  then have "float_ok f" using assms(4) by (simp add: record_ok_def)
  moreover obtain ja jc jh js where "json_of_pyval (advice (shared s)) = Inr ja"
    "json_of_pyval (crop (shared s)) = Inr jc" "json_of_pyval (hum (shared s)) = Inr jh"
    "json_of_pyval (soil (shared s)) = Inr js"
    using record_ok_json [OF ok assms(2,3), of FAdvice] record_ok_json [OF ok assms(2,3), of FCrop]
      record_ok_json [OF ok assms(2,3), of FHum] record_ok_json [OF ok assms(2,3), of FSoil] by auto
  ultimately show ?thesis
    using data_route_temp_text [of "shared s" ja jc jh js f pretty float_repr] assms(4) float_str_readback
    by blast
qed


theorem reachable_temp_readback_witness:
  "\<exists>p t. response_body True float_repr (data_route (initial_sensor_data\<lparr>temp := PyFloat (Fin False 25)\<rparr>))
          = Some (p @ lit ''\"temp\":'' @ [32] @ t @ [10] @ lit ''}'' @ [10])
      \<and> py_float t = Inr (Fin False 25)"
proof -
  define bs where "bs = utf8_encode (lit ''25.0,60.0,40.0'')"
  define ws where "ws = [(FHum, PyFloat (Fin False 60)), (FSoil, PyFloat (Fin False 40))]"
  have dec: "utf8_decode bs = Some (lit ''25.0,60.0,40.0'')"
    by (simp add: bs_def utf8_decode.simps model_defs)
  have strip: "py_strip (lit ''25.0,60.0,40.0'') = lit ''25.0,60.0,40.0''"
    by (simp add: model_defs)
  have split: "py_split 44 (lit ''25.0,60.0,40.0'') = [lit ''25.0'', lit ''60.0'', lit ''40.0'']"
    by (simp add: model_defs)
  have f: "py_float (lit ''25.0'') = Inr (Fin False 25)" "py_float (lit ''60.0'') = Inr (Fin False 60)"
    "py_float (lit ''40.0'') = Inr (Fin False 40)"
    by (simp_all add: model_defs)
  have "process_line None None (lit ''25.0,60.0,40.0'') = (None, (FTemp, PyFloat (Fin False 25)) # ws)"
    using split f by (simp add: process_line_def parse_fields_three predict_writes_def ws_def)
  then have tb: "try_body None None None (Readline bs) = (None, Some (lit ''25.0,60.0,40.0''), (FTemp, PyFloat (Fin False 25)) # ws)"
    using try_body_line [OF dec] strip by simp
  define s1 where "s1 = (initial_sys True)\<lparr>line_local := Some (lit ''25.0,60.0,40.0''), pc := Writing ((FTemp, PyFloat (Fin False 25)) # ws) None\<rparr>"
  define s2 where "s2 = s1\<lparr>shared := initial_sensor_data\<lparr>temp := PyFloat (Fin False 25)\<rparr>, pc := Writing ws None\<rparr>"
  have e1: "exec None None (initial_sys True) (Begin (Readline bs)) = Some (s1, None)"
    using tb by (simp add: s1_def initial_sys_def)
  have e2: "exec None None s1 WriteNext = Some (s2, None)"
    by (simp add: s1_def s2_def initial_sys_def)
  have r: "reachable None None True s2"
    using reachable.step [OF reachable.step [OF reachable.init e1] e2] .
  have l: "labels_serializable None" by (simp add: labels_serializable_def)
  have t: "temp (shared s2) = PyFloat (Fin False 25)" by (simp add: s2_def)
  note reachable_temp_readback [OF r l l t, where pretty=True]
  then show ?thesis by (simp add: s2_def)
qed

end
